theory Spec2Isabelle
  imports Complex_Main "HOL-Library.Multiset" "HOL-Library.AList"
begin

section \<open>Data model (src/models/Task.ts)\<close>

text \<open>
  A finite JavaScript \<open>number\<close> that carries a score, an urgency, a difficulty or a
  complexity factor is a \<open>real\<close>; a number of minutes is an \<open>int\<close>; a \<open>Date\<close> is its time
  value, the milliseconds since the epoch, an \<open>int\<close>. The results of the scoring
  arithmetic, which can overflow, are values of the type \<open>number\<close> below.

  \<open>DateType = Date | Timestamp | FieldValue | null\<close>: a Firestore \<open>Timestamp\<close> is carried
  by the time value its \<open>toDate()\<close> returns, a \<open>FieldValue\<close> carries no time, and \<open>null\<close>
  is \<open>None\<close> of \<open>DateType option\<close>.
\<close>

datatype DateType = DateV int | TimestampV int | FieldValueV

datatype TimeOfDay = MORNING | EVENING

text \<open>Of \<open>Task\<close> and \<open>UserPreferences\<close>, the fields the two algorithm files read.\<close>

record Task =
  id' :: string
  urgency :: real
  difficulty :: real
  durationMinutes :: int
  deadline :: "DateType option"
  tags :: "string list"

record UserPreferences =
  userId :: string
  morningComplexFactor :: real
  eveningComplexFactor :: real
  morningAvailableTime :: int
  eveningAvailableTime :: int

section \<open>JavaScript numbers\<close>

text \<open>
  A \<open>number\<close> is a finite value, \<open>Infinity\<close>, \<open>-Infinity\<close> or \<open>NaN\<close>. An operation on finite
  values gives the exact result unless that lies outside the range of a double: from
  \<open>2^1024 - 2^970\<close> on, round-to-nearest gives an infinity. The operations on infinities
  and \<open>NaN\<close> follow IEEE 754: \<open>Infinity - Infinity\<close> and \<open>Infinity * 0\<close> are \<open>NaN\<close>, and \<open>NaN\<close>
  propagates, also through \<open>Math.max\<close> and \<open>Math.min\<close>. The rounding of finite results and
  the sign of zero are outside the model.
\<close>

datatype number = Num real | PosInfinity | NegInfinity | NaN

definition overflowLimit :: real where
  "overflowLimit = 2 ^ 1024 - 2 ^ 970"

definition toNumber :: "real \<Rightarrow> number" where
  "toNumber r =
     (if overflowLimit \<le> r then PosInfinity
      else if r \<le> - overflowLimit then NegInfinity
      else Num r)"

fun numNeg :: "number \<Rightarrow> number" where
  "numNeg (Num a) = Num (- a)"
| "numNeg PosInfinity = NegInfinity"
| "numNeg NegInfinity = PosInfinity"
| "numNeg NaN = NaN"

fun numAdd :: "number \<Rightarrow> number \<Rightarrow> number" where
  "numAdd (Num a) (Num b) = toNumber (a + b)"
| "numAdd NaN y = NaN"
| "numAdd x NaN = NaN"
| "numAdd PosInfinity NegInfinity = NaN"
| "numAdd NegInfinity PosInfinity = NaN"
| "numAdd PosInfinity y = PosInfinity"
| "numAdd NegInfinity y = NegInfinity"
| "numAdd x PosInfinity = PosInfinity"
| "numAdd x NegInfinity = NegInfinity"

definition numSub :: "number \<Rightarrow> number \<Rightarrow> number" where
  "numSub x y = numAdd x (numNeg y)"

definition infinityOfSign :: "real \<Rightarrow> number" where
  "infinityOfSign a = (if a = 0 then NaN else if 0 < a then PosInfinity else NegInfinity)"

fun numMul :: "number \<Rightarrow> number \<Rightarrow> number" where
  "numMul (Num a) (Num b) = toNumber (a * b)"
| "numMul NaN y = NaN"
| "numMul x NaN = NaN"
| "numMul (Num a) PosInfinity = infinityOfSign a"
| "numMul (Num a) NegInfinity = infinityOfSign (- a)"
| "numMul PosInfinity (Num b) = infinityOfSign b"
| "numMul NegInfinity (Num b) = infinityOfSign (- b)"
| "numMul PosInfinity PosInfinity = PosInfinity"
| "numMul NegInfinity NegInfinity = PosInfinity"
| "numMul PosInfinity NegInfinity = NegInfinity"
| "numMul NegInfinity PosInfinity = NegInfinity"

text \<open>Division, with a zero divisor read as \<open>+0\<close>.\<close>

fun numDiv :: "number \<Rightarrow> number \<Rightarrow> number" where
  "numDiv (Num a) (Num b) = (if b = 0 then infinityOfSign a else toNumber (a / b))"
| "numDiv NaN y = NaN"
| "numDiv x NaN = NaN"
| "numDiv (Num a) PosInfinity = Num 0"
| "numDiv (Num a) NegInfinity = Num 0"
| "numDiv PosInfinity (Num b) = (if 0 \<le> b then PosInfinity else NegInfinity)"
| "numDiv NegInfinity (Num b) = (if 0 \<le> b then NegInfinity else PosInfinity)"
| "numDiv PosInfinity PosInfinity = NaN"
| "numDiv PosInfinity NegInfinity = NaN"
| "numDiv NegInfinity PosInfinity = NaN"
| "numDiv NegInfinity NegInfinity = NaN"

fun mathAbs :: "number \<Rightarrow> number" where
  "mathAbs (Num a) = Num \<bar>a\<bar>"
| "mathAbs PosInfinity = PosInfinity"
| "mathAbs NegInfinity = PosInfinity"
| "mathAbs NaN = NaN"

fun mathMax :: "number \<Rightarrow> number \<Rightarrow> number" where
  "mathMax (Num a) (Num b) = Num (max a b)"
| "mathMax NaN y = NaN"
| "mathMax x NaN = NaN"
| "mathMax PosInfinity y = PosInfinity"
| "mathMax x PosInfinity = PosInfinity"
| "mathMax NegInfinity y = y"
| "mathMax x NegInfinity = x"

fun mathMin :: "number \<Rightarrow> number \<Rightarrow> number" where
  "mathMin (Num a) (Num b) = Num (min a b)"
| "mathMin NaN y = NaN"
| "mathMin x NaN = NaN"
| "mathMin NegInfinity y = NegInfinity"
| "mathMin x NegInfinity = NegInfinity"
| "mathMin PosInfinity y = y"
| "mathMin x PosInfinity = x"

section \<open>Task scoring (src/algorithms/TaskScoring.ts)\<close>

definition URGENCY_WEIGHT :: real where "URGENCY_WEIGHT = 0.45"
definition COGNITIVE_WEIGHT :: real where "COGNITIVE_WEIGHT = 0.35"
definition DEADLINE_WEIGHT :: real where "DEADLINE_WEIGHT = 0.20"

definition calculateUrgencyScore :: "real \<Rightarrow> number" where
  "calculateUrgencyScore u = numMul (Num u) (Num 20)"

text \<open>
  The \<open>default\<close> branch of the \<open>switch\<close> (factor 1.0) is not reachable from a value of the
  enum \<open>TimeOfDay\<close>.
\<close>

definition calculateCognitiveScore :: "real \<Rightarrow> UserPreferences \<Rightarrow> TimeOfDay \<Rightarrow> number" where
  "calculateCognitiveScore d userPrefs timeOfDay =
     (let complexFactor = (case timeOfDay of
                             MORNING \<Rightarrow> morningComplexFactor userPrefs
                           | EVENING \<Rightarrow> eveningComplexFactor userPrefs);
          normalizedDifficulty = numDiv (Num d) (Num 5);
          alignmentScore =
            numSub (Num 100)
              (numMul (mathAbs (numSub normalizedDifficulty
                                  (numDiv (Num complexFactor) (Num 1.5))))
                 (Num 100))
      in alignmentScore)"

text \<open>
  \<open>new Date()\<close> reads the clock; the model takes the reading as the parameter \<open>now\<close>
  (a frozen clock: every reading within one call gives the same value).
\<close>

definition convertToDate :: "int \<Rightarrow> DateType option \<Rightarrow> int" where
  "convertToDate now date =
     (case date of
        None \<Rightarrow> now
      | Some (DateV t) \<Rightarrow> t
      | Some (TimestampV t) \<Rightarrow> t
      | Some FieldValueV \<Rightarrow> now)"

definition calculateDeadlineScore :: "int \<Rightarrow> DateType option \<Rightarrow> real" where
  "calculateDeadlineScore now dl =
     (case dl of
        None \<Rightarrow> 0
      | Some d \<Rightarrow>
          (let deadlineDate = convertToDate now (Some d);
               hoursUntilDeadline = max 0 (real_of_int (deadlineDate - now) / (1000 * 60 * 60))
           in 100 * (1 / (1 + 0.01 * hoursUntilDeadline))))"

text \<open>
  The deadline score is 0 or lies in \<open>(0, 100]\<close> (its divisor is at least 1), a finite
  number; it enters the sum as such.
\<close>

definition calculateTaskScore :: "int \<Rightarrow> Task \<Rightarrow> UserPreferences \<Rightarrow> TimeOfDay \<Rightarrow> number" where
  "calculateTaskScore now task userPrefs timeOfDay =
     (let urgencyScore = calculateUrgencyScore (urgency task);
          cognitiveScore = calculateCognitiveScore (difficulty task) userPrefs timeOfDay;
          deadlineScore = Num (calculateDeadlineScore now (deadline task));
          totalScore = numAdd
                         (numAdd (numMul urgencyScore (Num URGENCY_WEIGHT))
                                 (numMul cognitiveScore (Num COGNITIVE_WEIGHT)))
                         (numMul deadlineScore (Num DEADLINE_WEIGHT))
      in mathMin (Num 100) (mathMax (Num 0) totalScore))"

section \<open>Dates\<close>

text \<open>
  The local time zone of the runtime is a parameter: \<open>utcOffset tz t\<close> is the offset from
  UTC, in minutes, in force at the instant \<open>t\<close> (ECMAScript's \<open>LocalTime(t)\<close> adds it),
  and \<open>localOffset tz lt\<close> is the offset by which a local time value \<open>lt\<close> is read back
  as an instant (ECMAScript's \<open>UTC(lt)\<close> subtracts it). A zone without daylight-saving
  time has one offset throughout (\<open>fixedZone\<close>). \<open>getHours\<close>, \<open>getMinutes\<close>, \<open>setMinutes\<close>
  and \<open>setHours\<close> follow ECMAScript: the time value is split into day, hour, minute,
  second and millisecond of local time, the named fields are replaced, and the result is
  read back as an instant. The range limit of \<open>Date\<close> is outside the model.
\<close>

record TimeZone =
  utcOffset :: "int \<Rightarrow> int"
  localOffset :: "int \<Rightarrow> int"

definition fixedZone :: "int \<Rightarrow> TimeZone" where
  "fixedZone minutes = \<lparr>utcOffset = (\<lambda>t. minutes), localOffset = (\<lambda>lt. minutes)\<rparr>"

text \<open>
  US Eastern time around the end of daylight-saving time on 2023-11-05: UTC-4 before
  06:00 UTC (1699164000000) and UTC-5 from then on. The local hour from 01:00 to 02:00
  occurs twice; ECMAScript reads a repeated local time with the offset before the
  transition, so local time values before 02:00 (1699149600000) are read with UTC-4 and
  later ones with UTC-5.
\<close>

definition easternTime :: TimeZone where
  "easternTime = \<lparr>utcOffset = (\<lambda>t. if t < 1699164000000 then - 240 else - 300),
                   localOffset = (\<lambda>lt. if lt < 1699149600000 then - 240 else - 300)\<rparr>"

definition localTime :: "TimeZone \<Rightarrow> int \<Rightarrow> int" where
  "localTime tz t = t + utcOffset tz t * 60000"

definition utcTime :: "TimeZone \<Rightarrow> int \<Rightarrow> int" where
  "utcTime tz lt = lt - localOffset tz lt * 60000"

definition getHours :: "TimeZone \<Rightarrow> int \<Rightarrow> int" where
  "getHours tz t = (localTime tz t div 3600000) mod 24"

definition getMinutes :: "TimeZone \<Rightarrow> int \<Rightarrow> int" where
  "getMinutes tz t = (localTime tz t div 60000) mod 60"

definition setMinutes :: "TimeZone \<Rightarrow> int \<Rightarrow> int \<Rightarrow> int" where
  "setMinutes tz t m =
     (let lt = localTime tz t;
          day = lt div 86400000;
          hour = (lt div 3600000) mod 24;
          sec = (lt div 1000) mod 60;
          ms = lt mod 1000
      in utcTime tz (day * 86400000 + hour * 3600000 + m * 60000 + sec * 1000 + ms))"

text \<open>\<open>d.setHours(h)\<close> keeps minute, second and millisecond; \<open>d.setHours(h, m, s, ms)\<close> sets all four.\<close>

definition setHours :: "TimeZone \<Rightarrow> int \<Rightarrow> int \<Rightarrow> int" where
  "setHours tz t h =
     (let lt = localTime tz t;
          day = lt div 86400000;
          minute = (lt div 60000) mod 60;
          sec = (lt div 1000) mod 60;
          ms = lt mod 1000
      in utcTime tz (day * 86400000 + h * 3600000 + minute * 60000 + sec * 1000 + ms))"

definition setHours4 :: "TimeZone \<Rightarrow> int \<Rightarrow> int \<Rightarrow> int \<Rightarrow> int \<Rightarrow> int \<Rightarrow> int" where
  "setHours4 tz t h m s ms =
     (let lt = localTime tz t;
          day = lt div 86400000
      in utcTime tz (day * 86400000 + h * 3600000 + m * 60000 + s * 1000 + ms))"

section \<open>Schedule generator: data (src/algorithms/ScheduleGenerator.ts)\<close>

record ScoredTask =
  task :: Task
  morningScore :: real
  eveningScore :: real

record TimeBlock =
  timeOfDay :: TimeOfDay
  startTime :: int
  endTime :: int
  availableMinutes :: int

record ScheduledTask =
  taskId :: string
  startTime :: int
  endTime :: int
  completed :: bool

text \<open>
  \<open>generateUniqueId\<close> joins the base-36 renderings of \<open>Date.now()\<close> and of a random number;
  the model keeps the two numbers.
\<close>

record UniqueId =
  timestampComponent :: int
  randomComponent :: real

record ScheduleOption =
  ident :: UniqueId
  optionUserId :: string
  date :: int
  tasks :: "ScheduledTask list"
  totalScore :: real
  selected :: bool
  createdAt :: int

section \<open>Time-block planner\<close>

definition getDefaultFreeTime :: "UserPreferences \<Rightarrow> int" where
  "getDefaultFreeTime userPrefs = morningAvailableTime userPrefs + eveningAvailableTime userPrefs"

definition prepareTimeBlocksFromStartTime :: "TimeZone \<Rightarrow> int \<Rightarrow> int \<Rightarrow> TimeBlock list" where
  "prepareTimeBlocksFromStartTime tz start totalMinutes =
     (let currentHour = getHours tz start;
          tod = (if currentHour \<ge> 5 \<and> currentHour < 12 then MORNING else EVENING);
          end = start + totalMinutes * 60 * 1000
      in [] @ [\<lparr>timeOfDay = tod, startTime = start, endTime = end,
                 availableMinutes = totalMinutes\<rparr>])"

text \<open>
  \<open>prepareTimeBlocks\<close> is defined in the source ("the original method that's still used
  when freeTimeMinutes isn't provided") and called nowhere.
\<close>

definition prepareTimeBlocks :: "TimeZone \<Rightarrow> int \<Rightarrow> UserPreferences \<Rightarrow> TimeBlock list" where
  "prepareTimeBlocks tz dt userPrefs =
     (let dayStart = setHours4 tz dt 8 0 0 0;
          blocks0 = [];
          blocks1 = (if morningAvailableTime userPrefs > 0
                     then (let morningStart = dayStart;
                               morningEnd = setHours tz dayStart (getHours tz dayStart + 4)
                           in blocks0 @ [\<lparr>timeOfDay = MORNING, startTime = morningStart,
                                           endTime = morningEnd,
                                           availableMinutes = morningAvailableTime userPrefs\<rparr>])
                     else blocks0);
          blocks2 = (if eveningAvailableTime userPrefs > 0
                     then (let eveningStart = setHours4 tz dayStart 17 0 0 0;
                               eveningEnd = setHours tz eveningStart (getHours tz eveningStart + 5)
                           in blocks1 @ [\<lparr>timeOfDay = EVENING, startTime = eveningStart,
                                           endTime = eveningEnd,
                                           availableMinutes = eveningAvailableTime userPrefs\<rparr>])
                     else blocks1)
      in blocks2)"

text \<open>
  \<open>freeTimeMinutes || getDefaultFreeTime(userPrefs)\<close>: the optional parameter is \<open>None\<close> when
  the caller leaves it out; \<open>||\<close> takes its right operand when the left one is falsy,
  which for a number is \<open>undefined\<close> or 0.
\<close>

definition orDefault :: "int option \<Rightarrow> int \<Rightarrow> int" where
  "orDefault freeTimeMinutes dflt =
     (case freeTimeMinutes of None \<Rightarrow> dflt | Some m \<Rightarrow> if m = 0 then dflt else m)"

text \<open>Step 2 of \<open>generateDailySchedules\<close>: the time blocks every strategy packs into.\<close>

definition dailyTimeBlocks ::
  "TimeZone \<Rightarrow> UserPreferences \<Rightarrow> int \<Rightarrow> int option \<Rightarrow> TimeBlock list" where
  "dailyTimeBlocks tz userPrefs start freeTimeMinutes =
     prepareTimeBlocksFromStartTime tz start
       (orDefault freeTimeMinutes (getDefaultFreeTime userPrefs))"

section \<open>Randomness\<close>

text \<open>
  \<open>Math.random()\<close> is the next value of a random source \<open>rnd :: nat \<Rightarrow> real\<close>; the
  functions that draw from it take the index \<open>k\<close> of the next value and return the index
  after their last draw. \<open>Math.random()\<close> returns a value in \<open>[0, 1)\<close>: \<open>randomOk\<close>.
\<close>

definition randomOk :: "(nat \<Rightarrow> real) \<Rightarrow> bool" where
  "randomOk rnd = (\<forall>k. 0 \<le> rnd k \<and> rnd k < 1)"

text \<open>
  Fisher-Yates: \<open>for (let i = result.length - 1; i > 0; i--)\<close> with
  \<open>j = Math.floor(Math.random() * (i + 1))\<close> and the swap of \<open>result[i]\<close> and \<open>result[j]\<close>.
  With a random value in \<open>[0, 1)\<close> the index \<open>j\<close> lies in \<open>0..i\<close>.
\<close>

fun shuffleLoop :: "(nat \<Rightarrow> real) \<Rightarrow> nat \<Rightarrow> nat \<Rightarrow> 'a list \<Rightarrow> 'a list \<times> nat" where
  "shuffleLoop rnd 0 k result = (result, k)"
| "shuffleLoop rnd (Suc n) k result =
     (let i = Suc n;
          j = nat \<lfloor>rnd k * real (i + 1)\<rfloor>
      in shuffleLoop rnd n (Suc k) (result[i := result ! j, j := result ! i]))"

definition shuffleArray :: "(nat \<Rightarrow> real) \<Rightarrow> nat \<Rightarrow> 'a list \<Rightarrow> 'a list \<times> nat" where
  "shuffleArray rnd k array = shuffleLoop rnd (length array - 1) k array"

fun addRandomnessToScores ::
  "(nat \<Rightarrow> real) \<Rightarrow> nat \<Rightarrow> real \<Rightarrow> ScoredTask list \<Rightarrow> ScoredTask list \<times> nat" where
  "addRandomnessToScores rnd k variance [] = ([], k)"
| "addRandomnessToScores rnd k variance (t # ts) =
     (let t' = \<lparr>task = task t,
                morningScore = min 100 (max 0 (morningScore t + (rnd k * 2 - 1) * variance)),
                eveningScore = min 100 (max 0 (eveningScore t + (rnd (Suc k) * 2 - 1) * variance))\<rparr>;
          (ts', k') = addRandomnessToScores rnd (Suc (Suc k)) variance ts
      in (t' # ts', k'))"

definition generateUniqueId :: "(nat \<Rightarrow> real) \<Rightarrow> nat \<Rightarrow> int \<Rightarrow> UniqueId" where
  "generateUniqueId rnd k now = \<lparr>timestampComponent = now, randomComponent = rnd k\<rparr>"

section \<open>Scoring the pool and the priority order\<close>

text \<open>
  A score returned by \<open>calculateTaskScore\<close> is a number in \<open>[0, 100]\<close> or \<open>NaN\<close> (lemma
  \<open>calculateTaskScore_range\<close> below). The schedule generator is modelled on scores that
  are numbers, which a \<open>ScoredTask\<close> carries as reals. With a \<open>NaN\<close> score the comparators
  \<open>bScore - aScore\<close> of the generator's sorts are not consistent and ECMAScript leaves
  the sort order to the implementation; \<open>numberValue\<close> carries such a score as 0.
\<close>

definition numberValue :: "number \<Rightarrow> real" where
  "numberValue n = (case n of Num r \<Rightarrow> r | _ \<Rightarrow> 0)"

definition scoreTasks :: "int \<Rightarrow> Task list \<Rightarrow> UserPreferences \<Rightarrow> ScoredTask list" where
  "scoreTasks now ts userPrefs =
     map (\<lambda>t. \<lparr>task = t,
                morningScore = numberValue (calculateTaskScore now t userPrefs MORNING),
                eveningScore = numberValue (calculateTaskScore now t userPrefs EVENING)\<rparr>) ts"

definition getScoreForTimeOfDay :: "ScoredTask \<Rightarrow> TimeOfDay \<Rightarrow> real" where
  "getScoreForTimeOfDay scoredTask tod =
     (case tod of MORNING \<Rightarrow> morningScore scoredTask | EVENING \<Rightarrow> eveningScore scoredTask)"

text \<open>
  \<open>xs.sort((a, b) => score(b) - score(a))\<close>: \<open>Array.prototype.sort\<close> is stable, so the result
  is the one descending order that keeps equal scores in their input order, which is what
  the insertion sort \<open>sort_key\<close> on the negated score returns.
\<close>

definition sortDescending :: "TimeOfDay \<Rightarrow> ScoredTask list \<Rightarrow> ScoredTask list" where
  "sortDescending tod xs = sort_key (\<lambda>t. - getScoreForTimeOfDay t tod) xs"

definition sortTasksByTimeOfDay :: "ScoredTask list \<Rightarrow> TimeOfDay \<Rightarrow> ScoredTask list" where
  "sortTasksByTimeOfDay xs tod = sortDescending tod xs"

section \<open>Categories: a JavaScript object as dictionary\<close>

definition categoryOf :: "ScoredTask \<Rightarrow> string" where
  "categoryOf t = (if length (tags (task t)) > 0 then tags (task t) ! 0 else ''untagged'')"

text \<open>
  \<open>tasksByCategory\<close> is an object literal \<open>{}\<close> used as a dictionary: an association list of
  its own properties in creation order. Reading a name that \<open>Object.prototype\<close> defines
  finds the inherited value (an object or a function), which is truthy and has no
  \<open>push\<close>: for such a category no array is created and \<open>.push(task)\<close> throws a TypeError.
\<close>

type_synonym dict = "(string \<times> ScoredTask list) list"

datatype error = TypeError

definition objectPrototypeKeys :: "string list" where
  "objectPrototypeKeys =
     [''constructor'', ''hasOwnProperty'', ''isPrototypeOf'', ''propertyIsEnumerable'',
      ''toLocaleString'', ''toString'', ''valueOf'', ''__proto__'',
      ''__defineGetter__'', ''__defineSetter__'', ''__lookupGetter__'', ''__lookupSetter__'']"

fun groupByCategory :: "ScoredTask list \<Rightarrow> dict \<Rightarrow> error + dict" where
  "groupByCategory [] d = Inr d"
| "groupByCategory (t # ts) d =
     (let category = categoryOf t in
      if category \<in> set objectPrototypeKeys then Inl TypeError
      else
        (let d1 = (if map_of d category = None then AList.update category [] d else d)
         in (case map_of d1 category of
               None \<Rightarrow> Inl TypeError
             | Some xs \<Rightarrow> groupByCategory ts (AList.update category (xs @ [t]) d1))))"

text \<open>
  \<open>Object.keys\<close> and \<open>for ... in\<close> enumerate the own properties: first the array indices
  (canonical decimal numerals below \<open>2^32 - 1\<close>) in ascending numeric order, then the
  other names in creation order.
\<close>

definition digitsValue :: "string \<Rightarrow> int" where
  "digitsValue s = foldl (\<lambda>a c. 10 * a + (of_char c - 48)) 0 s"

definition isArrayIndex :: "string \<Rightarrow> bool" where
  "isArrayIndex s =
     (s \<noteq> [] \<and> list_all (\<lambda>c. (48::int) \<le> of_char c \<and> of_char c \<le> (57::int)) s
      \<and> (s = ''0'' \<or> hd s \<noteq> CHR ''0'') \<and> digitsValue s < 4294967295)"

definition objectKeys :: "dict \<Rightarrow> string list" where
  "objectKeys d =
     (let ks = map fst d
      in sort_key digitsValue (filter isArrayIndex ks) @ filter (\<lambda>k. \<not> isArrayIndex k) ks)"

text \<open>
  \<open>tasksByCategory[c]\<close> for a name \<open>c\<close> taken from \<open>Object.keys(tasksByCategory)\<close>: the array
  is there (lemma \<open>objectKeys_lookup\<close> below).
\<close>

definition categoryTasks :: "dict \<Rightarrow> string \<Rightarrow> ScoredTask list" where
  "categoryTasks d c = (case map_of d c of Some xs \<Rightarrow> xs | None \<Rightarrow> [])"

definition sortEachCategory :: "TimeOfDay \<Rightarrow> dict \<Rightarrow> dict" where
  "sortEachCategory tod d = map (\<lambda>(c, xs). (c, sortDescending tod xs)) d"

section \<open>Balanced strategy\<close>

text \<open>
  The inner \<open>for\<close> loop of the interleaving, from index \<open>i\<close>: \<open>shift()\<close> takes the head of
  the category's array; when the array is empty afterwards the category is filtered out
  of \<open>categoriesWithTasks\<close> and \<open>i--\<close> followed by the loop's \<open>i++\<close> leaves \<open>i\<close> in place.
\<close>

lemma filter_nth_shorter:
  "i < length cs \<Longrightarrow> length (filter (\<lambda>c. c \<noteq> cs ! i) cs) - i < length cs - i"
  using length_filter_less[of "cs ! i" cs "\<lambda>c. c \<noteq> cs ! i"] by simp

function forLoop ::
  "nat \<Rightarrow> string list \<Rightarrow> dict \<Rightarrow> ScoredTask list
     \<Rightarrow> error + (string list \<times> dict \<times> ScoredTask list)" where
  "forLoop i categoriesWithTasks d result =
     (if i < length categoriesWithTasks then
        (let category = categoriesWithTasks ! i in
         case map_of d category of
           None \<Rightarrow> Inl TypeError
         | Some xs \<Rightarrow>
             if length xs > 0 then
               (let result' = result @ [hd xs];
                    d' = AList.update category (tl xs) d
                in if length (tl xs) = 0
                   then forLoop i (filter (\<lambda>c. c \<noteq> category) categoriesWithTasks) d' result'
                   else forLoop (Suc i) categoriesWithTasks d' result')
             else forLoop (Suc i) categoriesWithTasks d result)
      else Inr (categoriesWithTasks, d, result))"
  by pat_completeness auto
termination
  by (relation "measure (\<lambda>(i, cs, d, r). length cs - i)") (auto simp: filter_nth_shorter)

text \<open>
  \<open>while (categoriesWithTasks.length > 0)\<close>: the loop returns when every category is
  exhausted; \<open>None\<close> is a run that never returns.
\<close>

partial_function (option) whileLoop ::
  "string list \<Rightarrow> dict \<Rightarrow> ScoredTask list \<Rightarrow> (error + ScoredTask list) option" where
  "whileLoop categoriesWithTasks d result =
     (if length categoriesWithTasks > 0 then
        (case forLoop 0 categoriesWithTasks d result of
           Inl e \<Rightarrow> Some (Inl e)
         | Inr (categoriesWithTasks', d', result') \<Rightarrow> whileLoop categoriesWithTasks' d' result')
      else Some (Inr result))"

declare whileLoop.simps [code]

definition balanceTaskCategories ::
  "ScoredTask list \<Rightarrow> TimeOfDay \<Rightarrow> (error + ScoredTask list) option" where
  "balanceTaskCategories xs tod =
     (case groupByCategory xs [] of
        Inl e \<Rightarrow> Some (Inl e)
      | Inr tasksByCategory \<Rightarrow>
          (let sorted = sortEachCategory tod tasksByCategory
           in whileLoop (objectKeys sorted) sorted []))"

section \<open>Grouped strategy\<close>

text \<open>
  \<open>Math.max(...scores)\<close> of a category's scores; a category's array is never empty
  (lemma \<open>groupByCategory_nonempty\<close> below).
\<close>

definition maxScore :: "TimeOfDay \<Rightarrow> ScoredTask list \<Rightarrow> real" where
  "maxScore tod xs = Max (set (map (\<lambda>t. getScoreForTimeOfDay t tod) xs))"

definition groupSimilarTasks :: "ScoredTask list \<Rightarrow> TimeOfDay \<Rightarrow> error + ScoredTask list" where
  "groupSimilarTasks xs tod =
     (case groupByCategory xs [] of
        Inl e \<Rightarrow> Inl e
      | Inr tasksByCategory \<Rightarrow>
          (let sortedCategories =
                 sort_key (\<lambda>c. - maxScore tod (categoryTasks tasksByCategory c))
                   (objectKeys tasksByCategory);
               sorted = sortEachCategory tod tasksByCategory
           in Inr (concat (map (categoryTasks sorted) sortedCategories))))"

section \<open>Schedule packer and option assembler\<close>

datatype Strategy = Priority | Balanced | Grouped

definition orderTasks ::
  "Strategy \<Rightarrow> ScoredTask list \<Rightarrow> TimeOfDay \<Rightarrow> (error + ScoredTask list) option" where
  "orderTasks strategy availableTasks tod =
     (case strategy of
        Priority \<Rightarrow> Some (Inr (sortTasksByTimeOfDay availableTasks tod))
      | Balanced \<Rightarrow> balanceTaskCategories availableTasks tod
      | Grouped \<Rightarrow> Some (groupSimilarTasks availableTasks tod))"

text \<open>
  \<open>availableTasks.findIndex(t => t.task.id === id)\<close> followed by \<open>splice(index, 1)\<close> when the
  index is not \<open>-1\<close>: the first task with that id is removed.
\<close>

fun removeAvailable :: "string \<Rightarrow> ScoredTask list \<Rightarrow> ScoredTask list" where
  "removeAvailable tid [] = []"
| "removeAvailable tid (t # ts) =
     (if id' (task t) = tid then ts else t # removeAvailable tid ts)"

text \<open>The variables of \<open>generatePriorityBasedSchedule\<close> that live across the time blocks.\<close>

record GenState =
  availableTasks :: "ScoredTask list"
  scheduledTasks :: "ScheduledTask list"
  runningScore :: real

text \<open>
  The loop over \<open>blockTasks\<close> of one block, with the block's \<open>currentTime\<close> and
  \<open>remainingMinutes\<close>: \<open>continue\<close> goes on with the next candidate in the same state,
  \<open>break\<close> returns.
\<close>

fun allocateTasks ::
  "TimeZone \<Rightarrow> TimeOfDay \<Rightarrow> ScoredTask list \<Rightarrow> int \<Rightarrow> int \<Rightarrow> GenState \<Rightarrow> GenState" where
  "allocateTasks tz tod [] currentTime remainingMinutes st = st"
| "allocateTasks tz tod (scoredTask # rest) currentTime remainingMinutes st =
     (let t = task scoredTask in
      if durationMinutes t > remainingMinutes
      then allocateTasks tz tod rest currentTime remainingMinutes st
      else
        (let taskEndTime = setMinutes tz currentTime (getMinutes tz currentTime + durationMinutes t);
             scheduled = scheduledTasks st
                         @ [\<lparr>taskId = id' t, startTime = currentTime, endTime = taskEndTime,
                              completed = False\<rparr>];
             remainingMinutes' = remainingMinutes - durationMinutes t;
             total = runningScore st + getScoreForTimeOfDay scoredTask tod;
             st' = \<lparr>availableTasks = removeAvailable (id' t) (availableTasks st),
                    scheduledTasks = scheduled,
                    runningScore = total\<rparr>
         in if remainingMinutes' < 15 then st'
            else allocateTasks tz tod rest taskEndTime remainingMinutes' st'))"

fun blocksLoop ::
  "TimeZone \<Rightarrow> Strategy \<Rightarrow> TimeBlock list \<Rightarrow> GenState \<Rightarrow> (error + GenState) option" where
  "blocksLoop tz strategy [] st = Some (Inr st)"
| "blocksLoop tz strategy (block # blocks) st =
     (case orderTasks strategy (availableTasks st) (timeOfDay block) of
        None \<Rightarrow> None
      | Some (Inl e) \<Rightarrow> Some (Inl e)
      | Some (Inr blockTasks) \<Rightarrow>
          blocksLoop tz strategy blocks
            (allocateTasks tz (timeOfDay block) blockTasks
               (TimeBlock.startTime block) (availableMinutes block) st))"

definition generatePriorityBasedSchedule ::
  "TimeZone \<Rightarrow> int \<Rightarrow> (nat \<Rightarrow> real) \<Rightarrow> nat \<Rightarrow> ScoredTask list \<Rightarrow> TimeBlock list
     \<Rightarrow> UserPreferences \<Rightarrow> int \<Rightarrow> Strategy \<Rightarrow> (error + ScheduleOption) option" where
  "generatePriorityBasedSchedule tz now rnd k scoredTasks timeBlocks userPrefs dt strategy =
     (case blocksLoop tz strategy timeBlocks
             \<lparr>availableTasks = scoredTasks, scheduledTasks = [], runningScore = 0\<rparr> of
        None \<Rightarrow> None
      | Some (Inl e) \<Rightarrow> Some (Inl e)
      | Some (Inr st) \<Rightarrow>
          Some (Inr \<lparr>ident = generateUniqueId rnd k now,
                     optionUserId = userId userPrefs,
                     date = dt,
                     tasks = scheduledTasks st,
                     totalScore = runningScore st,
                     selected = False,
                     createdAt = now\<rparr>))"

text \<open>
  \<open>generateDailySchedules\<close>: the pool is scored once (step 1); \<open>schedulesFromScored\<close> is
  the rest of the function's body, which reads the tasks through \<open>scoredTasks\<close> only. The
  pools of the balanced and the grouped option are shuffled and jittered (variance 5)
  before anything else draws from the random source; each option draws one more value
  for its id. An exception thrown while an option is built leaves the function.
\<close>

definition schedulesFromScored ::
  "TimeZone \<Rightarrow> int \<Rightarrow> (nat \<Rightarrow> real) \<Rightarrow> ScoredTask list \<Rightarrow> UserPreferences \<Rightarrow> int
     \<Rightarrow> int option \<Rightarrow> int \<Rightarrow> (error + ScheduleOption list) option" where
  "schedulesFromScored tz now rnd scoredTasks userPrefs start freeTimeMinutes dt =
     (let (shuffled1, k1) = shuffleArray rnd 0 scoredTasks;
          (shuffledForBalanced, k2) = addRandomnessToScores rnd k1 5 shuffled1;
          (shuffled2, k3) = shuffleArray rnd k2 scoredTasks;
          (shuffledForGrouped, k4) = addRandomnessToScores rnd k3 5 shuffled2;
          timeBlocks = dailyTimeBlocks tz userPrefs start freeTimeMinutes
      in case generatePriorityBasedSchedule tz now rnd k4 scoredTasks timeBlocks
                userPrefs dt Priority of
           None \<Rightarrow> None
         | Some (Inl e) \<Rightarrow> Some (Inl e)
         | Some (Inr option1) \<Rightarrow>
            (case generatePriorityBasedSchedule tz now rnd (k4 + 1) shuffledForBalanced timeBlocks
                    userPrefs dt Balanced of
               None \<Rightarrow> None
             | Some (Inl e) \<Rightarrow> Some (Inl e)
             | Some (Inr option2) \<Rightarrow>
                (case generatePriorityBasedSchedule tz now rnd (k4 + 2) shuffledForGrouped timeBlocks
                        userPrefs dt Grouped of
                   None \<Rightarrow> None
                 | Some (Inl e) \<Rightarrow> Some (Inl e)
                 | Some (Inr option3) \<Rightarrow> Some (Inr ([] @ [option1] @ [option2] @ [option3])))))"

definition generateDailySchedules ::
  "TimeZone \<Rightarrow> int \<Rightarrow> (nat \<Rightarrow> real) \<Rightarrow> Task list \<Rightarrow> UserPreferences \<Rightarrow> int \<Rightarrow> int option \<Rightarrow> int
     \<Rightarrow> (error + ScheduleOption list) option" where
  "generateDailySchedules tz now rnd ts userPrefs start freeTimeMinutes dt =
     (let scoredTasks = scoreTasks now ts userPrefs
      in schedulesFromScored tz now rnd scoredTasks userPrefs start freeTimeMinutes dt)"

text \<open>
  \<open>generateScheduleOptions\<close>: the parameters \<open>startTime\<close> and \<open>date\<close> default to \<open>new Date()\<close>
  when the caller leaves them out.
\<close>

definition generateScheduleOptions ::
  "TimeZone \<Rightarrow> int \<Rightarrow> (nat \<Rightarrow> real) \<Rightarrow> Task list \<Rightarrow> UserPreferences \<Rightarrow> int option \<Rightarrow> int option
     \<Rightarrow> int option \<Rightarrow> (error + ScheduleOption list) option" where
  "generateScheduleOptions tz now rnd ts userPrefs start freeTimeMinutes dt =
     generateDailySchedules tz now rnd ts userPrefs
       (case start of None \<Rightarrow> now | Some s \<Rightarrow> s) freeTimeMinutes
       (case dt of None \<Rightarrow> now | Some d \<Rightarrow> d)"

section \<open>Specification-level functions for the packer\<close>

text \<open>
  The functions of this and the next two sections are used to state properties of the
  generator; no function of the program calls them. \<open>placedTasks cs r\<close> are the candidates of \<open>cs\<close> that fit, in order, into \<open>r\<close> remaining
  minutes under the packing rule, and \<open>slots tz t cs\<close> are the time slots from \<open>t\<close> for
  the tasks \<open>cs\<close>, each starting where the one before ends.
\<close>

fun placedTasks :: "ScoredTask list \<Rightarrow> int \<Rightarrow> ScoredTask list" where
  "placedTasks [] r = []"
| "placedTasks (c # cs) r =
     (if durationMinutes (task c) > r then placedTasks cs r
      else c # (if r - durationMinutes (task c) < 15 then []
                else placedTasks cs (r - durationMinutes (task c))))"

fun slots :: "TimeZone \<Rightarrow> int \<Rightarrow> ScoredTask list \<Rightarrow> ScheduledTask list" where
  "slots tz t [] = []"
| "slots tz t (c # cs) =
     \<lparr>taskId = id' (task c), startTime = t,
      endTime = setMinutes tz t (getMinutes tz t + durationMinutes (task c)),
      completed = False\<rparr>
     # slots tz (setMinutes tz t (getMinutes tz t + durationMinutes (task c))) cs"

section \<open>Specification-level functions for the ordering strategies\<close>

text \<open>
  \<open>firstOccurrences\<close> keeps the first occurrence of every element; \<open>keyOrder\<close> is the
  enumeration order of \<open>Object.keys\<close> over names created in the given order;
  \<open>categoryOrder\<close> is the order in which the strategies meet the categories of a pool;
  \<open>inCategory c\<close> selects the tasks of category \<open>c\<close> in pool order; \<open>plainCategories\<close> holds
  when no category is a name that \<open>Object.prototype\<close> defines.
\<close>

fun firstOccurrences :: "'a list \<Rightarrow> 'a list" where
  "firstOccurrences [] = []"
| "firstOccurrences (y # ys) = y # firstOccurrences (filter (\<lambda>z. z \<noteq> y) ys)"

definition keyOrder :: "string list \<Rightarrow> string list" where
  "keyOrder ks = sort_key digitsValue (filter isArrayIndex ks) @ filter (\<lambda>k. \<not> isArrayIndex k) ks"

definition categoryOrder :: "ScoredTask list \<Rightarrow> string list" where
  "categoryOrder xs = keyOrder (firstOccurrences (map categoryOf xs))"

definition inCategory :: "string \<Rightarrow> ScoredTask list \<Rightarrow> ScoredTask list" where
  "inCategory c xs = filter (\<lambda>t. categoryOf t = c) xs"

definition plainCategories :: "ScoredTask list \<Rightarrow> bool" where
  "plainCategories xs = list_all (\<lambda>t. categoryOf t \<notin> set objectPrototypeKeys) xs"

definition groupedCategoryOrder :: "TimeOfDay \<Rightarrow> ScoredTask list \<Rightarrow> string list" where
  "groupedCategoryOrder tod xs =
     sort_key (\<lambda>c. - maxScore tod (inCategory c xs)) (categoryOrder xs)"

text \<open>
  \<open>roundRobin\<close> takes one element from every list that still has one, in list order, and
  repeats with what is left, until all lists are exhausted.
\<close>

lemma sum_length_tl:
  "ys \<noteq> [] \<Longrightarrow> \<forall>y\<in>set ys. y \<noteq> [] \<Longrightarrow>
     sum_list (map (\<lambda>y. length (tl y)) ys) < sum_list (map length ys)"
proof (induction ys)
  case Nil
  then show ?case by simp
next
  case (Cons y ys)
  then have "y \<noteq> []" by simp
  then have 1: "length (tl y) < length y" by (cases y) auto
  show ?case
  proof (cases ys)
    case Nil
    then show ?thesis using 1 by simp
  next
    case (Cons z zs)
    then have "sum_list (map (\<lambda>y. length (tl y)) ys) < sum_list (map length ys)"
      using Cons.IH Cons.prems by simp
    then show ?thesis using 1 by simp
  qed
qed

lemma sum_length_filter:
  "sum_list (map length (filter P ys)) \<le> sum_list (map length ys)"
  by (induction ys) auto

lemma roundRobin_measure:
  assumes "filter (\<lambda>xs. xs \<noteq> []) xss \<noteq> []"
  shows "sum_list (map (\<lambda>y. length (tl y)) (filter (\<lambda>xs. xs \<noteq> []) xss))
           < sum_list (map length xss)"
proof -
  have "sum_list (map (\<lambda>y. length (tl y)) (filter (\<lambda>xs. xs \<noteq> []) xss))
          < sum_list (map length (filter (\<lambda>xs. xs \<noteq> []) xss))"
    using assms by (intro sum_length_tl) auto
  also have "\<dots> \<le> sum_list (map length xss)" by (rule sum_length_filter)
  finally show ?thesis .
qed

function roundRobin :: "'a list list \<Rightarrow> 'a list" where
  "roundRobin xss =
     (let live = filter (\<lambda>xs. xs \<noteq> []) xss
      in if live = [] then [] else map hd live @ roundRobin (map tl live))"
  by pat_completeness auto
termination
  by (relation "measure (\<lambda>xss. sum_list (map length xss))")
     (simp_all add: roundRobin_measure comp_def del: length_tl)

declare roundRobin.simps [simp del]
declare forLoop.simps [simp del]

section \<open>Specification-level functions for the schedule options\<close>

text \<open>
  \<open>taskWithId ts i\<close> is the task of \<open>ts\<close> with id \<open>i\<close>, and \<open>placedMinutes ts ss\<close> the sum of
  \<open>durationMinutes\<close> over the tasks of \<open>ts\<close> that the scheduled tasks \<open>ss\<close> name.
\<close>

definition taskWithId :: "Task list \<Rightarrow> string \<Rightarrow> Task option" where
  "taskWithId ts i = find (\<lambda>t. id' t = i) ts"

definition placedMinutes :: "Task list \<Rightarrow> ScheduledTask list \<Rightarrow> int" where
  "placedMinutes ts ss =
     sum_list (map (\<lambda>s. case taskWithId ts (taskId s) of
                            Some t \<Rightarrow> durationMinutes t
                          | None \<Rightarrow> 0) ss)"

section \<open>Example data\<close>

text \<open>
  Tasks without deadline and of difficulty 5, and preferences with complexity factor 1.5:
  the score of a task of urgency \<open>u\<close> is \<open>9 * u + 35\<close> at either time of day. The clock
  and the start time 1672560000000 are 2023-01-01 08:00 UTC.
\<close>

definition exampleTask :: "string \<Rightarrow> string list \<Rightarrow> real \<Rightarrow> int \<Rightarrow> Task" where
  "exampleTask i tgs u d =
     \<lparr>id' = i, urgency = u, difficulty = 5, durationMinutes = d, deadline = None, tags = tgs\<rparr>"

definition examplePrefs :: UserPreferences where
  "examplePrefs = \<lparr>userId = ''u'', morningComplexFactor = 1.5, eveningComplexFactor = 1.5,
                    morningAvailableTime = 60, eveningAvailableTime = 60\<rparr>"

definition exampleScored :: "string \<Rightarrow> string list \<Rightarrow> real \<Rightarrow> int \<Rightarrow> ScoredTask" where
  "exampleScored i tgs u d =
     \<lparr>task = exampleTask i tgs u d, morningScore = u * 9 + 35, eveningScore = u * 9 + 35\<rparr>"

definition exampleBlock :: "int \<Rightarrow> TimeBlock" where
  "exampleBlock m = \<lparr>timeOfDay = MORNING, startTime = 1672560000000,
                      endTime = 1672560000000 + m * 60000, availableMinutes = m\<rparr>"

definition emptyState :: "ScoredTask list \<Rightarrow> GenState" where
  "emptyState pool = \<lparr>availableTasks = pool, scheduledTasks = [], runningScore = 0\<rparr>"

definition balancedExample :: "ScoredTask list" where
  "balancedExample =
     [exampleScored ''A1'' [''A''] 5 30, exampleScored ''B1'' [''B''] 5 30,
      exampleScored ''A2'' [''A''] 4 30, exampleScored ''B2'' [''B''] 4 30]"

text \<open>
  \<open>scoredAt i tgs d m e\<close> is a scored task with morning score \<open>m\<close> and evening score \<open>e\<close>.
  In \<open>groupedExample\<close> the best evening score of a category is not that of its first
  task, and the evening scores order the tasks differently from the morning scores; so
  they do in \<open>eveningPool\<close>. 1672599600000 is 2023-01-01 19:00 UTC.
\<close>

definition scoredAt :: "string \<Rightarrow> string list \<Rightarrow> int \<Rightarrow> real \<Rightarrow> real \<Rightarrow> ScoredTask" where
  "scoredAt i tgs d m e =
     \<lparr>task = exampleTask i tgs 3 d, morningScore = m, eveningScore = e\<rparr>"

definition groupedExample :: "ScoredTask list" where
  "groupedExample =
     [scoredAt ''B1'' [''B''] 30 50 30, scoredAt ''A1'' [''A''] 30 90 10,
      scoredAt ''B2'' [''B''] 30 40 60, scoredAt ''A2'' [''A''] 30 20 80]"



definition exampleTasks :: "Task list" where
  "exampleTasks = [exampleTask ''A'' [] 5 30, exampleTask ''B'' [] 4 20]"

definition exampleOption :: "real \<Rightarrow> real \<Rightarrow> ScheduleOption" where
  "exampleOption r s =
     \<lparr>ident = \<lparr>timestampComponent = 1672560000000, randomComponent = r\<rparr>,
      optionUserId = ''u'', date = 1672560000000,
      tasks = [\<lparr>taskId = ''A'', startTime = 1672560000000, endTime = 1672561800000,
                 completed = False\<rparr>,
               \<lparr>taskId = ''B'', startTime = 1672561800000, endTime = 1672563000000,
                 completed = False\<rparr>],
      totalScore = s, selected = False, createdAt = 1672560000000\<rparr>"


section \<open>Properties of the scoring engine\<close>

lemma calculateDeadlineScore_Some:
  "calculateDeadlineScore now (Some d) =
     100 * (1 / (1 + 0.01 * max 0 (real_of_int (convertToDate now (Some d) - now) / 3600000)))"
  by (simp add: calculateDeadlineScore_def Let_def)

lemma calculateDeadlineScore_pos: "0 < calculateDeadlineScore now (Some d)"
proof -
  have "0 < 1 + 0.01 * max 0 (real_of_int (convertToDate now (Some d) - now) / 3600000)"
    by (simp add: max_def add_pos_nonneg)
  then show ?thesis
    by (simp only: calculateDeadlineScore_Some zero_less_mult_iff zero_less_divide_iff)
       simp
qed

lemma overflowLimit_large: "2 ^ 1000 < overflowLimit"
proof -
  have "(2::real) ^ 1024 = 2 ^ 1000 * 2 ^ 24" "(2::real) ^ 970 \<le> 2 ^ 1000"
    by (simp_all flip: power_add)
  moreover have "(0::real) < 2 ^ 1000" by simp
  ultimately show ?thesis unfolding overflowLimit_def by simp
qed

lemma overflowLimit_million: "1000000 < overflowLimit"
proof -
  have "(1000000::real) < 2 ^ 20" by simp
  also have "(2::real) ^ 20 \<le> 2 ^ 1000" by (rule power_increasing) simp_all
  also note overflowLimit_large
  finally show ?thesis .
qed

lemma toNumber_Num: "\<bar>r\<bar> < overflowLimit \<Longrightarrow> toNumber r = Num r"
  by (auto simp: toNumber_def)

lemma toNumber_small: "\<bar>r\<bar> \<le> 1000000 \<Longrightarrow> toNumber r = Num r"
  using overflowLimit_million by (intro toNumber_Num) linarith

lemma clamp_range:
  "mathMin (Num 100) (mathMax (Num 0) x) = NaN
   \<or> (\<exists>r. mathMin (Num 100) (mathMax (Num 0) x) = Num r \<and> 0 \<le> r \<and> r \<le> 100)"
  by (cases x) auto

lemma calculateTaskScore_range:
  "calculateTaskScore now t userPrefs tod = NaN
   \<or> (\<exists>r. calculateTaskScore now t userPrefs tod = Num r \<and> 0 \<le> r \<and> r \<le> 100)"
  unfolding calculateTaskScore_def Let_def by (rule clamp_range)

lemma calculateDeadlineScore_bounds:
  "0 \<le> calculateDeadlineScore now dl \<and> calculateDeadlineScore now dl \<le> 100"
proof (cases dl)
  case None
  then show ?thesis by (simp add: calculateDeadlineScore_def)
next
  case (Some d)
  define h where "h = max 0 (real_of_int (convertToDate now (Some d) - now) / (1000 * 60 * 60))"
  have h: "0 \<le> h" by (simp add: h_def)
  have "calculateDeadlineScore now dl = 100 * (1 / (1 + 0.01 * h))"
    by (simp add: Some calculateDeadlineScore_def Let_def h_def)
  moreover have "0 \<le> 1 / (1 + 0.01 * h)" "1 / (1 + 0.01 * h) \<le> 1"
    using h by (simp_all add: field_simps)
  ultimately show ?thesis by simp
qed

text \<open>
  For inputs of magnitude up to a bound \<open>big\<close> that leaves five decimal orders below the
  overflow limit, no intermediate result leaves the range of a double: the score is the
  weighted sum \<open>(urgency * 20) * 0.45 + (100 - |difficulty / 5 - complexFactor / 1.5| *
  100) * 0.35 + deadlineComponent * 0.20\<close>, clamped to \<open>[0, 100]\<close> at the top level, and the
  cognitive component is the unclamped expression.
\<close>

lemma calculateTaskScore_weighted:
  fixes t :: Task and tod :: TimeOfDay and userPrefs :: UserPreferences
  defines "cf \<equiv> (case tod of MORNING \<Rightarrow> morningComplexFactor userPrefs
                              | EVENING \<Rightarrow> eveningComplexFactor userPrefs)"
  assumes big1: "1 \<le> big" and lim: "big * 100000 < overflowLimit"
    and u': "\<bar>urgency t\<bar> \<le> big" and d': "\<bar>difficulty t\<bar> \<le> big" and c': "\<bar>cf\<bar> \<le> big"
  shows "calculateCognitiveScore (difficulty t) userPrefs tod =
           Num (100 - \<bar>difficulty t / 5 - cf / 1.5\<bar> * 100)"
    and "calculateTaskScore now t userPrefs tod =
           Num (min 100 (max 0
             ((urgency t * 20) * 0.45
              + (100 - \<bar>difficulty t / 5 - cf / 1.5\<bar> * 100) * 0.35
              + calculateDeadlineScore now (deadline t) * 0.20)))"
proof -
  have big: "0 < big" using big1 by simp
  have small: "toNumber r = Num r" if "\<bar>r\<bar> \<le> big * 100000" for r
    using that lim by (intro toNumber_Num) linarith
  define a where "a = \<bar>difficulty t / 5 - cf / 1.5\<bar>"
  define dl where "dl = calculateDeadlineScore now (deadline t)"
  have dl: "0 \<le> dl" "dl \<le> 100" using calculateDeadlineScore_bounds by (simp_all add: dl_def)
  have u2: "urgency t \<le> big" "- big \<le> urgency t"
    and d2: "difficulty t \<le> big" "- big \<le> difficulty t"
    and c2: "cf \<le> big" "- big \<le> cf"
    using u' d' c' by (simp_all add: abs_le_iff)
  have a: "0 \<le> a" "a \<le> big * 2"
  proof -
    show "0 \<le> a" by (simp add: a_def)
    show "a \<le> big * 2" unfolding a_def using d2 c2 big
      by (intro abs_leI; (simp add: algebra_simps)?; linarith)
  qed
  have 1: "toNumber (urgency t * 20) = Num (urgency t * 20)"
    using u2 d2 c2 a dl big big1 by (intro small abs_leI; (simp add: algebra_simps)?; linarith)
  have 2: "toNumber (difficulty t / 5) = Num (difficulty t / 5)"
    using u2 d2 c2 a dl big big1 by (intro small abs_leI; (simp add: algebra_simps)?; linarith)
  have 3: "toNumber (cf / 1.5) = Num (cf / 1.5)"
    using u2 d2 c2 a dl big big1 by (intro small abs_leI; (simp add: algebra_simps)?; linarith)
  have 4: "toNumber (difficulty t / 5 - cf / 1.5) = Num (difficulty t / 5 - cf / 1.5)"
    using a big unfolding a_def by (intro small; linarith)
  have 5: "toNumber (a * 100) = Num (a * 100)"
    using u2 d2 c2 a dl big big1 by (intro small abs_leI; (simp add: algebra_simps)?; linarith)
  have 6: "toNumber (100 - a * 100) = Num (100 - a * 100)"
    using u2 d2 c2 a dl big big1 by (intro small abs_leI; (simp add: algebra_simps)?; linarith)
  have n1: "numDiv (Num (difficulty t)) (Num 5) = Num (difficulty t / 5)"
    using 2 by simp
  have n2: "numDiv (Num cf) (Num 1.5) = Num (cf / 1.5)"
    using 3 by simp
  have n3: "numSub (Num (difficulty t / 5)) (Num (cf / 1.5)) = Num (difficulty t / 5 - cf / 1.5)"
    using 4 by (simp add: numSub_def)
  have n4: "numMul (Num a) (Num 100) = Num (a * 100)"
    using 5 by simp
  have n5: "numSub (Num 100) (Num (a * 100)) = Num (100 - a * 100)"
    using 6 by (simp add: numSub_def)
  have cog: "calculateCognitiveScore (difficulty t) userPrefs tod = Num (100 - a * 100)"
    unfolding calculateCognitiveScore_def Let_def cf_def[symmetric]
    by (simp only: n1 n2 n3 mathAbs.simps a_def[symmetric] n4 n5)
  have 7: "toNumber (urgency t * 20 * 0.45) = Num (urgency t * 20 * 0.45)"
    using u2 d2 c2 a dl big big1 by (intro small abs_leI; (simp add: algebra_simps)?; linarith)
  have 8: "toNumber ((100 - a * 100) * 0.35) = Num ((100 - a * 100) * 0.35)"
    using u2 d2 c2 a dl big big1 by (intro small abs_leI; (simp add: algebra_simps)?; linarith)
  have 9: "toNumber (dl * 0.20) = Num (dl * 0.20)"
    using u2 d2 c2 a dl big big1 by (intro small abs_leI; (simp add: algebra_simps)?; linarith)
  have 10: "toNumber (urgency t * 20 * 0.45 + (100 - a * 100) * 0.35)
             = Num (urgency t * 20 * 0.45 + (100 - a * 100) * 0.35)"
    using u2 d2 c2 a dl big big1 by (intro small abs_leI; (simp add: algebra_simps)?; linarith)
  have 11: "toNumber (urgency t * 20 * 0.45 + (100 - a * 100) * 0.35 + dl * 0.20)
             = Num (urgency t * 20 * 0.45 + (100 - a * 100) * 0.35 + dl * 0.20)"
    using u2 d2 c2 a dl big big1 by (intro small abs_leI; (simp add: algebra_simps)?; linarith)
  have m1: "numMul (Num (urgency t)) (Num 20) = Num (urgency t * 20)"
    using 1 by simp
  have m2: "numMul (Num (urgency t * 20)) (Num 0.45) = Num (urgency t * 20 * 0.45)"
    using 7 by simp
  have m3: "numMul (Num (100 - a * 100)) (Num 0.35) = Num ((100 - a * 100) * 0.35)"
    using 8 by simp
  have m4: "numMul (Num dl) (Num 0.20) = Num (dl * 0.20)"
    using 9 by simp
  have m5: "numAdd (Num (urgency t * 20 * 0.45)) (Num ((100 - a * 100) * 0.35))
              = Num (urgency t * 20 * 0.45 + (100 - a * 100) * 0.35)"
    using 10 by simp
  have m6: "numAdd (Num (urgency t * 20 * 0.45 + (100 - a * 100) * 0.35)) (Num (dl * 0.20))
              = Num (urgency t * 20 * 0.45 + (100 - a * 100) * 0.35 + dl * 0.20)"
    using 11 by simp
  show "calculateCognitiveScore (difficulty t) userPrefs tod =
           Num (100 - \<bar>difficulty t / 5 - cf / 1.5\<bar> * 100)"
    using cog by (simp add: a_def)
  show "calculateTaskScore now t userPrefs tod =
           Num (min 100 (max 0
             ((urgency t * 20) * 0.45
              + (100 - \<bar>difficulty t / 5 - cf / 1.5\<bar> * 100) * 0.35
              + calculateDeadlineScore now (deadline t) * 0.20)))"
    unfolding calculateTaskScore_def Let_def cog calculateUrgencyScore_def
      URGENCY_WEIGHT_def COGNITIVE_WEIGHT_def DEADLINE_WEIGHT_def
      dl_def[symmetric] a_def[symmetric]
    by (simp only: m1 m2 m3 m4 m5 m6 mathMax.simps mathMin.simps)
qed

lemma calculateTaskScore_weighted_10:
  fixes t :: Task
  assumes "\<bar>urgency t\<bar> \<le> 10" "\<bar>difficulty t\<bar> \<le> 10"
    "\<bar>morningComplexFactor userPrefs\<bar> \<le> 10" "\<bar>eveningComplexFactor userPrefs\<bar> \<le> 10"
  shows "calculateTaskScore now t userPrefs tod =
           Num (min 100 (max 0
             ((urgency t * 20) * 0.45
              + (100 - \<bar>difficulty t / 5
                         - (case tod of MORNING \<Rightarrow> morningComplexFactor userPrefs
                                      | EVENING \<Rightarrow> eveningComplexFactor userPrefs) / 1.5\<bar> * 100) * 0.35
              + calculateDeadlineScore now (deadline t) * 0.20)))"
proof -
  have "(10::real) * 100000 < overflowLimit" using overflowLimit_million by simp
  moreover have "\<bar>case tod of MORNING \<Rightarrow> morningComplexFactor userPrefs
                         | EVENING \<Rightarrow> eveningComplexFactor userPrefs\<bar> \<le> 10"
    using assms(3,4) by (cases tod) simp_all
  ultimately show ?thesis
    using calculateTaskScore_weighted(2)[where big = 10 and t = t and tod = tod
        and userPrefs = userPrefs and now = now] assms(1,2) by simp
qed

text \<open>
  C1 (the code at a failing input). The property: the score is the weighted sum clamped
  to \<open>[0, 100]\<close> and lies in \<open>[0, 100]\<close> however extreme the inputs are; the source documents
  "@returns A score from 0-100" and "Ensure score is in the range 0-100". The score is
  that clamped sum while the intermediate results stay in the range of a double
  (\<open>calculateTaskScore_weighted\<close>), and every score is a number in \<open>[0, 100]\<close> or \<open>NaN\<close>
  (\<open>calculateTaskScore_range\<close>). With urgency and difficulty \<open>1e308\<close> the urgency component
  \<open>1e308 * 20\<close> overflows to \<open>Infinity\<close> and the alignment \<open>100 - |1e308 / 5 - 1| * 100\<close> to
  \<open>-Infinity\<close>; the weighted sum \<open>Infinity + -Infinity\<close> is \<open>NaN\<close>, which \<open>Math.max\<close> and \<open>Math.min\<close>
  return unchanged: the score is \<open>NaN\<close>, not a value in \<open>[0, 100]\<close>.
\<close>

theorem calculateTaskScore_overflow_NaN:
  "calculateUrgencyScore (10 ^ 308) = PosInfinity
   \<and> calculateCognitiveScore (10 ^ 308)
         \<lparr>userId = ''u'', morningComplexFactor = 1.5, eveningComplexFactor = 1.5,
          morningAvailableTime = 60, eveningAvailableTime = 60\<rparr> MORNING = NegInfinity
   \<and> calculateTaskScore now
         \<lparr>id' = ''T'', urgency = 10 ^ 308, difficulty = 10 ^ 308, durationMinutes = 30,
          deadline = None, tags = []\<rparr>
         \<lparr>userId = ''u'', morningComplexFactor = 1.5, eveningComplexFactor = 1.5,
          morningAvailableTime = 60, eveningAvailableTime = 60\<rparr> MORNING = NaN"
  by (simp add: calculateTaskScore_def calculateUrgencyScore_def calculateCognitiveScore_def
      calculateDeadlineScore_def toNumber_def overflowLimit_def numSub_def infinityOfSign_def
      URGENCY_WEIGHT_def COGNITIVE_WEIGHT_def DEADLINE_WEIGHT_def Let_def)

text \<open>
  C5. The deadline component is 0 for an absent deadline; for a present deadline it is
  \<open>100 * (1 / (1 + 0.01 * max 0 hoursUntilDeadline))\<close>, where \<open>hoursUntilDeadline\<close> is the
  difference between the deadline's time value and the clock in hours; a deadline due this
  instant scores 100, one 100 hours ahead scores exactly 50, and the component of a present
  deadline is strictly positive.
\<close>

theorem calculateDeadlineScore_formula:
  "calculateDeadlineScore now None = 0
   \<and> calculateDeadlineScore now (Some d) =
       100 * (1 / (1 + 0.01 * max 0 (real_of_int (convertToDate now (Some d) - now) / (1000 * 60 * 60))))
   \<and> calculateDeadlineScore now (Some (DateV now)) = 100
   \<and> calculateDeadlineScore now (Some (TimestampV now)) = 100
   \<and> calculateDeadlineScore now (Some (DateV (now + 100 * 3600000))) = 50
   \<and> calculateDeadlineScore now (Some (TimestampV (now + 100 * 3600000))) = 50
   \<and> 0 < calculateDeadlineScore now (Some d)"
proof -
  have "calculateDeadlineScore now None = 0"
    by (simp add: calculateDeadlineScore_def)
  moreover have "calculateDeadlineScore now (Some d) =
       100 * (1 / (1 + 0.01 * max 0 (real_of_int (convertToDate now (Some d) - now) / (1000 * 60 * 60))))"
    by (simp add: calculateDeadlineScore_Some)
  moreover have "calculateDeadlineScore now (Some (DateV now)) = 100"
    "calculateDeadlineScore now (Some (TimestampV now)) = 100"
    "calculateDeadlineScore now (Some (DateV (now + 100 * 3600000))) = 50"
    "calculateDeadlineScore now (Some (TimestampV (now + 100 * 3600000))) = 50"
    by (simp_all add: calculateDeadlineScore_Some convertToDate_def)
  moreover have "0 < calculateDeadlineScore now (Some d)"
    by (rule calculateDeadlineScore_pos)
  ultimately show ?thesis by blast
qed

text \<open>
  C10. A deadline at or before the current time gives the deadline component exactly 100:
  the hours until the deadline are clamped to 0, however late the task is.
\<close>

theorem calculateDeadlineScore_overdue:
  "convertToDate now (Some d) \<le> now \<Longrightarrow> calculateDeadlineScore now (Some d) = 100"
  by (simp add: calculateDeadlineScore_Some max_def)

theorem calculateDeadlineScore_overdue_witness:
  "convertToDate 1672531200000 (Some (TimestampV 1640995200000)) \<le> 1672531200000
   \<and> calculateDeadlineScore 1672531200000 (Some (TimestampV 1640995200000)) = 100"
  using calculateDeadlineScore_overdue [of 1672531200000 "TimestampV 1640995200000"]
  by (simp add: convertToDate_def)

section \<open>Properties of the time-block planner\<close>

lemma prepareTimeBlocksFromStartTime_single:
  "prepareTimeBlocksFromStartTime tz start m =
     [\<lparr>timeOfDay = (if 5 \<le> getHours tz start \<and> getHours tz start < 12 then MORNING else EVENING),
       startTime = start, endTime = start + m * 60000, availableMinutes = m\<rparr>]"
  by (simp add: prepareTimeBlocksFromStartTime_def Let_def)

lemma dailyTimeBlocks_no_budget:
  "dailyTimeBlocks tz userPrefs start None =
     prepareTimeBlocksFromStartTime tz start
       (morningAvailableTime userPrefs + eveningAvailableTime userPrefs)"
  by (simp add: dailyTimeBlocks_def orDefault_def getDefaultFreeTime_def)

text \<open>
  C3 (the code at a failing input). The property: when no free-time budget is supplied,
  up to two blocks are derived from the preferences, a morning block from 08:00 with
  \<open>morningAvailableTime\<close> minutes and an evening block from 17:00 with \<open>eveningAvailableTime\<close>
  minutes, each present when its minutes are positive. \<open>prepareTimeBlocks\<close> computes these
  blocks, and \<open>generateDailySchedules\<close> never calls it: with 60 morning and 60 evening
  minutes and no budget, at 08:00 UTC on 2023-01-01, the generator packs into one block
  of 120 minutes that starts at the start time.
\<close>

theorem dailyTimeBlocks_no_budget_single_block:
  "dailyTimeBlocks (fixedZone 0) \<lparr>userId = ''u'', morningComplexFactor = 1, eveningComplexFactor = 1,
                        morningAvailableTime = 60, eveningAvailableTime = 60\<rparr>
       1672560000000 None =
     [\<lparr>timeOfDay = MORNING, startTime = 1672560000000, endTime = 1672567200000,
       availableMinutes = 120\<rparr>]
   \<and> prepareTimeBlocks (fixedZone 0) 1672560000000
        \<lparr>userId = ''u'', morningComplexFactor = 1, eveningComplexFactor = 1,
         morningAvailableTime = 60, eveningAvailableTime = 60\<rparr> =
     [\<lparr>timeOfDay = MORNING, startTime = 1672560000000, endTime = 1672574400000,
       availableMinutes = 60\<rparr>,
      \<lparr>timeOfDay = EVENING, startTime = 1672592400000, endTime = 1672610400000,
       availableMinutes = 60\<rparr>]"
  by (simp add: dailyTimeBlocks_def orDefault_def getDefaultFreeTime_def
      prepareTimeBlocksFromStartTime_single prepareTimeBlocks_def Let_def
      setHours_def setHours4_def utcTime_def getHours_def localTime_def fixedZone_def)

text \<open>
  C4 (as stated, for every supplied figure) fails for the figure 0, which \<open>||\<close> replaces by
  the sum of the preference minutes.
\<close>

theorem dailyTimeBlocks_zero_budget_counterexample:
  "dailyTimeBlocks (fixedZone 0) \<lparr>userId = ''u'', morningComplexFactor = 1, eveningComplexFactor = 1,
                        morningAvailableTime = 60, eveningAvailableTime = 60\<rparr>
       1672560000000 (Some 0) =
     [\<lparr>timeOfDay = MORNING, startTime = 1672560000000, endTime = 1672567200000,
       availableMinutes = 120\<rparr>]
   \<and> map availableMinutes
         (dailyTimeBlocks (fixedZone 0) \<lparr>userId = ''u'', morningComplexFactor = 1, eveningComplexFactor = 1,
                              morningAvailableTime = 60, eveningAvailableTime = 60\<rparr>
            1672560000000 (Some 0)) \<noteq> [0]"
  by (simp add: dailyTimeBlocks_def orDefault_def getDefaultFreeTime_def
      prepareTimeBlocksFromStartTime_single getHours_def localTime_def fixedZone_def)

text \<open>
  C4 (amended). \<open>prepareTimeBlocksFromStartTime\<close> returns exactly one block that starts at the
  given time, has the given minutes as \<open>availableMinutes\<close>, ends that many minutes after
  the start, and is labelled morning when the start hour is in \<open>[5, 12)\<close> and evening
  otherwise; the generator packs into this block for the caller's start time and
  free-time figure whenever the figure is not 0.
\<close>

theorem dailyTimeBlocks_explicit_budget:
  "prepareTimeBlocksFromStartTime tz start m =
     [\<lparr>timeOfDay = (if 5 \<le> getHours tz start \<and> getHours tz start < 12 then MORNING else EVENING),
       startTime = start, endTime = start + m * 60000, availableMinutes = m\<rparr>]
   \<and> (m \<noteq> 0 \<longrightarrow>
        dailyTimeBlocks tz userPrefs start (Some m) =
          [\<lparr>timeOfDay = (if 5 \<le> getHours tz start \<and> getHours tz start < 12 then MORNING else EVENING),
            startTime = start, endTime = start + m * 60000, availableMinutes = m\<rparr>])"
  by (simp add: dailyTimeBlocks_def orDefault_def prepareTimeBlocksFromStartTime_single)

theorem dailyTimeBlocks_explicit_budget_witness:
  "(60::int) \<noteq> 0
   \<and> dailyTimeBlocks (fixedZone 0) \<lparr>userId = ''u'', morningComplexFactor = 1, eveningComplexFactor = 1,
                          morningAvailableTime = 30, eveningAvailableTime = 30\<rparr>
         1672560000000 (Some 60) =
       [\<lparr>timeOfDay = MORNING, startTime = 1672560000000, endTime = 1672563600000,
         availableMinutes = 60\<rparr>]
   \<and> dailyTimeBlocks (fixedZone 0) \<lparr>userId = ''u'', morningComplexFactor = 1, eveningComplexFactor = 1,
                          morningAvailableTime = 30, eveningAvailableTime = 30\<rparr>
         1672599600000 (Some 60) =
       [\<lparr>timeOfDay = EVENING, startTime = 1672599600000, endTime = 1672603200000,
         availableMinutes = 60\<rparr>]"
  using dailyTimeBlocks_explicit_budget [of "fixedZone 0" 1672560000000 60
          "\<lparr>userId = ''u'', morningComplexFactor = 1, eveningComplexFactor = 1,
            morningAvailableTime = 30, eveningAvailableTime = 30\<rparr>"]
        dailyTimeBlocks_explicit_budget [of "fixedZone 0" 1672599600000 60
          "\<lparr>userId = ''u'', morningComplexFactor = 1, eveningComplexFactor = 1,
            morningAvailableTime = 30, eveningAvailableTime = 30\<rparr>"]
  by (simp add: getHours_def localTime_def fixedZone_def)

section \<open>Properties of the schedule packer\<close>

lemma time_decomposition:
  "(x::int) = (x div 86400000) * 86400000 + ((x div 3600000) mod 24) * 3600000
     + ((x div 60000) mod 60) * 60000 + ((x div 1000) mod 60) * 1000 + x mod 1000"
proof -
  define s where "s = x div 1000"
  define m where "m = s div 60"
  define h where "h = m div 60"
  define d where "d = h div 24"
  have a: "x div 60000 = m" "x div 3600000 = h" "x div 86400000 = d" "x div 1000 = s"
    by (simp_all add: s_def m_def h_def d_def zdiv_zmult2_eq)
  have 1: "x = s * 1000 + x mod 1000" by (simp add: s_def)
  have 2: "s = m * 60 + s mod 60" by (simp add: m_def)
  have 3: "m = h * 60 + m mod 60" by (simp add: h_def)
  have 4: "h = d * 24 + h mod 24" by (simp add: d_def)
  show ?thesis unfolding a using 1 2 3 4 by linarith
qed

lemma setMinutes_local:
  "setMinutes tz t (getMinutes tz t + d) = utcTime tz (localTime tz t + d * 60000)"
proof -
  define L where "L = localTime tz t"
  define A where "A = L div 86400000"
  define B where "B = L div 3600000 mod 24"
  define C where "C = L div 60000 mod 60"
  define D where "D = L div 1000 mod 60"
  define E where "E = L mod 1000"
  have 1: "setMinutes tz t (getMinutes tz t + d) =
     utcTime tz (A * 86400000 + B * 3600000 + (C * 60000 + d * 60000) + D * 1000 + E)"
    unfolding setMinutes_def getMinutes_def Let_def L_def A_def B_def C_def D_def E_def
    by (simp only: distrib_right)
  have 2: "L = A * 86400000 + B * 3600000 + C * 60000 + D * 1000 + E"
    unfolding A_def B_def C_def D_def E_def by (rule time_decomposition)
  have "A * 86400000 + B * 3600000 + (C * 60000 + d * 60000) + D * 1000 + E = L + d * 60000"
    using 2 by linarith
  then show ?thesis using 1 by (simp only: L_def)
qed

text \<open>
  \<open>setMinutes(getMinutes() + d)\<close> moves the local time by \<open>d\<close> minutes. The instant moves by
  \<open>d\<close> minutes when the offset that reads the new local time back is the offset in force
  at the start, as in a zone with one offset throughout.
\<close>

lemma setMinutes_add:
  "localOffset tz (localTime tz t + d * 60000) = utcOffset tz t \<Longrightarrow>
     setMinutes tz t (getMinutes tz t + d) = t + d * 60000"
  by (simp add: setMinutes_local utcTime_def localTime_def)

lemma setMinutes_add_fixed:
  "setMinutes (fixedZone z) t (getMinutes (fixedZone z) t + d) = t + d * 60000"
  by (rule setMinutes_add) (simp add: fixedZone_def)

lemma allocateTasks_skip:
  "durationMinutes (task c) > r \<Longrightarrow>
     allocateTasks tz tod (c # cs) t r st = allocateTasks tz tod cs t r st"
  by (simp add: Let_def)

lemma allocateTasks_place:
  "durationMinutes (task c) \<le> r \<Longrightarrow>
     allocateTasks tz tod (c # cs) t r st =
       (let e = setMinutes tz t (getMinutes tz t + durationMinutes (task c));
            st' = \<lparr>availableTasks = removeAvailable (id' (task c)) (availableTasks st),
                   scheduledTasks = scheduledTasks st
                      @ [\<lparr>taskId = id' (task c), startTime = t, endTime = e,
                           completed = False\<rparr>],
                   runningScore = runningScore st + getScoreForTimeOfDay c tod\<rparr>
        in if r - durationMinutes (task c) < 15 then st'
           else allocateTasks tz tod cs e (r - durationMinutes (task c)) st')"
  by (simp add: Let_def)

lemma allocateTasks_scheduled:
  "scheduledTasks (allocateTasks tz tod cs t r st)
     = scheduledTasks st @ slots tz t (placedTasks cs r)"
proof (induction cs arbitrary: t r st)
  case Nil
  then show ?case by simp
next
  case (Cons c cs)
  show ?case
  proof (cases "durationMinutes (task c) > r")
    case True
    then show ?thesis using Cons.IH by (simp add: allocateTasks_skip del: allocateTasks.simps)
  next
    case False
    then have le: "durationMinutes (task c) \<le> r" by simp
    show ?thesis
      using False Cons.IH by (simp add: allocateTasks_place[OF le] Let_def del: allocateTasks.simps)
  qed
qed

lemma allocateTasks_available:
  "availableTasks (allocateTasks tz tod cs t r st) =
     fold (\<lambda>c. removeAvailable (id' (task c))) (placedTasks cs r) (availableTasks st)"
proof (induction cs arbitrary: t r st)
  case Nil
  then show ?case by simp
next
  case (Cons c cs)
  show ?case
  proof (cases "durationMinutes (task c) > r")
    case True
    then show ?thesis using Cons.IH by (simp add: allocateTasks_skip del: allocateTasks.simps)
  next
    case False
    then have le: "durationMinutes (task c) \<le> r" by simp
    show ?thesis
      using False Cons.IH by (simp add: allocateTasks_place[OF le] Let_def del: allocateTasks.simps)
  qed
qed

lemma allocateTasks_score:
  "runningScore (allocateTasks tz tod cs t r st) =
     runningScore st + sum_list (map (\<lambda>c. getScoreForTimeOfDay c tod) (placedTasks cs r))"
proof (induction cs arbitrary: t r st)
  case Nil
  then show ?case by simp
next
  case (Cons c cs)
  show ?case
  proof (cases "durationMinutes (task c) > r")
    case True
    then show ?thesis using Cons.IH by (simp add: allocateTasks_skip del: allocateTasks.simps)
  next
    case False
    then have le: "durationMinutes (task c) \<le> r" by simp
    show ?thesis
      using False Cons.IH by (simp add: allocateTasks_place[OF le] Let_def del: allocateTasks.simps)
  qed
qed

lemma placedTasks_subset: "set (placedTasks cs r) \<subseteq> set cs"
  by (induction cs arbitrary: r) auto

lemma placedTasks_distinct:
  "distinct (map f cs) \<Longrightarrow> distinct (map f (placedTasks cs r))"
proof (induction cs arbitrary: r)
  case Nil
  then show ?case by simp
next
  case (Cons c cs)
  then have "f c \<notin> f ` set (placedTasks cs r')" for r'
    using placedTasks_subset[of cs r'] by auto
  with Cons show ?case by auto
qed

lemma placedTasks_minutes:
  "0 \<le> r \<Longrightarrow> sum_list (map (\<lambda>c. durationMinutes (task c)) (placedTasks cs r)) \<le> r"
proof (induction cs arbitrary: r)
  case Nil
  then show ?case by simp
next
  case (Cons c cs)
  show ?case
  proof (cases "durationMinutes (task c) > r")
    case True
    then show ?thesis using Cons by simp
  next
    case False
    then have "0 \<le> r - durationMinutes (task c)" by simp
    from Cons.IH[OF this] show ?thesis using False by simp
  qed
qed

lemma map_taskId_slots: "map taskId (slots tz t cs) = map (\<lambda>c. id' (task c)) cs"
  by (induction cs arbitrary: t) (auto simp: Let_def)

lemma slots_fixedZone:
  "slots (fixedZone z) t (c # cs) =
     \<lparr>taskId = id' (task c), startTime = t,
      endTime = t + durationMinutes (task c) * 60000, completed = False\<rparr>
     # slots (fixedZone z) (t + durationMinutes (task c) * 60000) cs"
  by (simp add: setMinutes_add_fixed)

lemma sortDescending_pair:
  "getScoreForTimeOfDay b tod < getScoreForTimeOfDay a tod \<Longrightarrow>
     sortDescending tod [a, b] = [a, b] \<and> sortDescending tod [b, a] = [a, b]"
  by (simp add: sortDescending_def)

lemma generatePriorityBasedSchedule_one_block:
  "orderTasks strategy pool (timeOfDay block) = Some (Inr blockTasks) \<Longrightarrow>
     generatePriorityBasedSchedule tz now rnd k pool [block] userPrefs dt strategy =
       Some (Inr \<lparr>ident = generateUniqueId rnd k now,
                  optionUserId = userId userPrefs,
                  date = dt,
                  tasks = slots tz (TimeBlock.startTime block)
                            (placedTasks blockTasks (availableMinutes block)),
                  totalScore = sum_list (map (\<lambda>c. getScoreForTimeOfDay c (timeOfDay block))
                                  (placedTasks blockTasks (availableMinutes block))),
                  selected = False,
                  createdAt = now\<rparr>)"
  by (simp add: generatePriorityBasedSchedule_def allocateTasks_scheduled allocateTasks_score)

text \<open>
  The packer walks the ordered candidates with \<open>currentTime\<close> \<open>t\<close> and \<open>remainingMinutes\<close> \<open>r\<close>:
  a candidate longer than \<open>r\<close> is skipped and the walk goes on; an accepted candidate is
  emitted with \<open>startTime = t\<close> and the end time \<open>e\<close> that \<open>setMinutes(getMinutes() +
  durationMinutes)\<close> gives; when the placement leaves fewer than 15 minutes the walk stops,
  otherwise it goes on from \<open>e\<close> with the minutes that remain. The end time is
  \<open>t + durationMinutes\<close> when the zone's offset is the same at both ends. With one
  60-minute block and two 45-minute tasks, exactly the first candidate of the strategy's
  order is placed; in the priority schedule this is the task with the higher score for
  the block's time of day.
\<close>

lemma allocateTasks_packing:
  "(let d = durationMinutes (task c);
        e = setMinutes tz t (getMinutes tz t + d);
        st' = \<lparr>availableTasks = removeAvailable (id' (task c)) (availableTasks st),
               scheduledTasks = scheduledTasks st
                  @ [\<lparr>taskId = id' (task c), startTime = t, endTime = e,
                       completed = False\<rparr>],
               runningScore = runningScore st
                  + (case tod of MORNING \<Rightarrow> morningScore c | EVENING \<Rightarrow> eveningScore c)\<rparr>
    in (d > r \<longrightarrow> allocateTasks tz tod (c # cs) t r st = allocateTasks tz tod cs t r st)
     \<and> (d \<le> r \<and> r - d < 15 \<longrightarrow> allocateTasks tz tod (c # cs) t r st = st')
     \<and> (d \<le> r \<and> \<not> r - d < 15 \<longrightarrow>
          allocateTasks tz tod (c # cs) t r st = allocateTasks tz tod cs e (r - d) st')
     \<and> (localOffset tz (localTime tz t + d * 60000) = utcOffset tz t \<longrightarrow> e = t + d * 60000))
   \<and> (availableMinutes block = 60 \<and> durationMinutes (task x) = 45
        \<and> durationMinutes (task y) = 45
        \<and> orderTasks strategy candidates (timeOfDay block) = Some (Inr [x, y])
      \<longrightarrow> map_option (map_sum id (\<lambda>opt. map taskId (tasks opt)))
            (generatePriorityBasedSchedule tz now rnd k candidates [block] userPrefs dt strategy)
          = Some (Inr [id' (task x)]))
   \<and> (availableMinutes block = 60 \<and> durationMinutes (task a) = 45
        \<and> durationMinutes (task b) = 45
        \<and> (case timeOfDay block of MORNING \<Rightarrow> morningScore b | EVENING \<Rightarrow> eveningScore b)
            < (case timeOfDay block of MORNING \<Rightarrow> morningScore a | EVENING \<Rightarrow> eveningScore a)
        \<and> (pool = [a, b] \<or> pool = [b, a])
      \<longrightarrow> map_option (map_sum id (\<lambda>opt. map taskId (tasks opt)))
            (generatePriorityBasedSchedule tz now rnd k pool [block] userPrefs dt Priority)
          = Some (Inr [id' (task a)]))"
proof -
  have 3: "map_option (map_sum id (\<lambda>opt. map taskId (tasks opt)))
            (generatePriorityBasedSchedule tz now rnd k xs [block] userPrefs dt s)
          = Some (Inr [id' (task p)])"
    if h: "availableMinutes block = 60" "durationMinutes (task p) = 45"
        "durationMinutes (task q) = 45"
        "orderTasks s xs (timeOfDay block) = Some (Inr [p, q])"
    for xs s p q
  proof -
    have "placedTasks [p, q] 60 = [p]" using h(2,3) by simp
    then show ?thesis
      using h(1,2) by (simp add: generatePriorityBasedSchedule_one_block[OF h(4)] Let_def)
  qed
  have 4: "map_option (map_sum id (\<lambda>opt. map taskId (tasks opt)))
            (generatePriorityBasedSchedule tz now rnd k pool [block] userPrefs dt Priority)
          = Some (Inr [id' (task a)])"
    if h: "availableMinutes block = 60" "durationMinutes (task a) = 45"
        "durationMinutes (task b) = 45"
        "(case timeOfDay block of MORNING \<Rightarrow> morningScore b | EVENING \<Rightarrow> eveningScore b)
            < (case timeOfDay block of MORNING \<Rightarrow> morningScore a | EVENING \<Rightarrow> eveningScore a)"
        "pool = [a, b] \<or> pool = [b, a]"
  proof -
    have "getScoreForTimeOfDay b (timeOfDay block) < getScoreForTimeOfDay a (timeOfDay block)"
      using h(4) by (simp add: getScoreForTimeOfDay_def)
    then have "sortTasksByTimeOfDay pool (timeOfDay block) = [a, b]"
      using sortDescending_pair h(5) by (auto simp: sortTasksByTimeOfDay_def)
    then have "orderTasks Priority pool (timeOfDay block) = Some (Inr [a, b])"
      by (simp add: orderTasks_def)
    from 3[OF h(1,2,3) this] show ?thesis .
  qed
  have 5: "getScoreForTimeOfDay c tod
             = (case tod of MORNING \<Rightarrow> morningScore c | EVENING \<Rightarrow> eveningScore c)"
    by (simp add: getScoreForTimeOfDay_def)
  show ?thesis
    unfolding Let_def
  proof (intro conjI impI)
    assume "r < durationMinutes (task c)"
    then show "allocateTasks tz tod (c # cs) t r st = allocateTasks tz tod cs t r st"
      by (rule allocateTasks_skip)
  next
    assume "durationMinutes (task c) \<le> r \<and> r - durationMinutes (task c) < 15"
    then show "allocateTasks tz tod (c # cs) t r st =
        \<lparr>availableTasks = removeAvailable (id' (task c)) (availableTasks st),
         scheduledTasks = scheduledTasks st
            @ [\<lparr>taskId = id' (task c), startTime = t,
                 endTime = setMinutes tz t (getMinutes tz t + durationMinutes (task c)),
                 completed = False\<rparr>],
         runningScore = runningScore st
            + (case tod of MORNING \<Rightarrow> morningScore c | EVENING \<Rightarrow> eveningScore c)\<rparr>"
      by (simp add: allocateTasks_place Let_def 5 del: allocateTasks.simps)
  next
    assume "durationMinutes (task c) \<le> r \<and> \<not> r - durationMinutes (task c) < 15"
    then show "allocateTasks tz tod (c # cs) t r st =
        allocateTasks tz tod cs (setMinutes tz t (getMinutes tz t + durationMinutes (task c)))
          (r - durationMinutes (task c))
          \<lparr>availableTasks = removeAvailable (id' (task c)) (availableTasks st),
           scheduledTasks = scheduledTasks st
              @ [\<lparr>taskId = id' (task c), startTime = t,
                   endTime = setMinutes tz t (getMinutes tz t + durationMinutes (task c)),
                   completed = False\<rparr>],
           runningScore = runningScore st
              + (case tod of MORNING \<Rightarrow> morningScore c | EVENING \<Rightarrow> eveningScore c)\<rparr>"
      by (simp add: allocateTasks_place Let_def 5 del: allocateTasks.simps)
  next
    assume "localOffset tz (localTime tz t + durationMinutes (task c) * 60000) = utcOffset tz t"
    then show "setMinutes tz t (getMinutes tz t + durationMinutes (task c))
                 = t + durationMinutes (task c) * 60000"
      by (rule setMinutes_add)
  next
    assume "availableMinutes block = 60 \<and> durationMinutes (task x) = 45
        \<and> durationMinutes (task y) = 45
        \<and> orderTasks strategy candidates (timeOfDay block) = Some (Inr [x, y])"
    then show "map_option (map_sum id (\<lambda>opt. map taskId (tasks opt)))
            (generatePriorityBasedSchedule tz now rnd k candidates [block] userPrefs dt strategy)
          = Some (Inr [id' (task x)])"
      using 3 by blast
  next
    assume "availableMinutes block = 60 \<and> durationMinutes (task a) = 45
        \<and> durationMinutes (task b) = 45
        \<and> (case timeOfDay block of MORNING \<Rightarrow> morningScore b | EVENING \<Rightarrow> eveningScore b)
            < (case timeOfDay block of MORNING \<Rightarrow> morningScore a | EVENING \<Rightarrow> eveningScore a)
        \<and> (pool = [a, b] \<or> pool = [b, a])"
    then show "map_option (map_sum id (\<lambda>opt. map taskId (tasks opt)))
            (generatePriorityBasedSchedule tz now rnd k pool [block] userPrefs dt Priority)
          = Some (Inr [id' (task a)])"
      using 4 by blast
  qed
qed

section \<open>Properties of the category dictionary\<close>

lemma set_firstOccurrences: "set (firstOccurrences ys) = set ys"
  by (induction ys rule: firstOccurrences.induct) auto

lemma distinct_firstOccurrences: "distinct (firstOccurrences ys)"
  by (induction ys rule: firstOccurrences.induct) (auto simp: set_firstOccurrences)

lemma filter_firstOccurrences:
  "filter P (firstOccurrences ys) = firstOccurrences (filter P ys)"
proof (induction ys rule: firstOccurrences.induct)
  case 1
  then show ?case by simp
next
  case (2 y ys)
  have "filter (\<lambda>z. z \<noteq> y) (filter P ys) = filter P (filter (\<lambda>z. z \<noteq> y) ys)"
    by (simp add: conj_commute)
  moreover have "filter P ys = filter P (filter (\<lambda>z. z \<noteq> y) ys)" if "\<not> P y"
    using that by (auto intro: filter_cong)
  ultimately show ?case using 2 by auto
qed

lemma update_absent: "k \<notin> fst ` set al \<Longrightarrow> AList.update k v al = al @ [(k, v)]"
  by (induction al) auto

lemma categoryTasks_update:
  "categoryTasks (AList.update k v d) c = (if c = k then v else categoryTasks d c)"
  by (simp add: categoryTasks_def update_conv')

lemma map_of_None_iff: "map_of d c = None \<longleftrightarrow> c \<notin> fst ` set d"
  by (simp add: map_of_eq_None_iff)

lemma groupByCategory_spec:
  "plainCategories xs \<Longrightarrow> distinct (map fst d) \<Longrightarrow>
     \<exists>d'. groupByCategory xs d = Inr d'
        \<and> map fst d' = map fst d
             @ firstOccurrences (filter (\<lambda>c. c \<notin> fst ` set d) (map categoryOf xs))
        \<and> (\<forall>c. categoryTasks d' c = categoryTasks d c @ inCategory c xs)"
proof (induction xs arbitrary: d)
  case Nil
  then show ?case by (simp add: inCategory_def)
next
  case (Cons t ts)
  define c where "c = categoryOf t"
  define d1 where "d1 = (if map_of d c = None then AList.update c [] d else d)"
  define d2 where "d2 = AList.update c (categoryTasks d1 c @ [t]) d1"
  have plain: "c \<notin> set objectPrototypeKeys" "plainCategories ts"
    using Cons.prems(1) by (simp_all add: plainCategories_def c_def)
  have in1: "c \<in> fst ` set d1"
    by (auto simp: d1_def dom_update map_of_None_iff)
  then obtain ys where ys: "map_of d1 c = Some ys"
    by (metis map_of_None_iff not_Some_eq)
  then have ct: "categoryTasks d1 c = ys" by (simp add: categoryTasks_def)
  have step: "groupByCategory (t # ts) d = groupByCategory ts d2"
    using plain(1) ys ct by (simp add: Let_def c_def[symmetric] d1_def[symmetric] d2_def)
  have dist1: "distinct (map fst d1)"
    using Cons.prems(2) by (simp add: d1_def distinct_update)
  then have dist2: "distinct (map fst d2)"
    by (simp add: d2_def distinct_update)
  have keys1: "map fst d1 = map fst d @ (if c \<in> fst ` set d then [] else [c])"
    by (auto simp: d1_def map_of_None_iff update_keys)
  have keys2: "map fst d2 = map fst d1"
    using in1 by (simp add: d2_def update_keys)
  have tasks1: "categoryTasks d1 c' = categoryTasks d c'" for c'
    by (cases "map_of d c") (auto simp: d1_def categoryTasks_def update_conv')
  have tasks2: "categoryTasks d2 c' = categoryTasks d c' @ (if c' = c then [t] else [])" for c'
    by (simp add: d2_def categoryTasks_update tasks1)
  from Cons.IH[OF plain(2) dist2] obtain d' where d':
    "groupByCategory ts d2 = Inr d'"
    "map fst d' = map fst d2
        @ firstOccurrences (filter (\<lambda>c. c \<notin> fst ` set d2) (map categoryOf ts))"
    "\<And>c. categoryTasks d' c = categoryTasks d2 c @ inCategory c ts"
    by blast
  have set2: "fst ` set d2 = insert c (fst ` set d)"
    using keys1 keys2 by (metis (no_types, lifting) d1_def d2_def dom_update in1 insert_absorb
        insert_is_Un)
  have keys: "map fst d' = map fst d
             @ firstOccurrences (filter (\<lambda>c. c \<notin> fst ` set d) (map categoryOf (t # ts)))"
  proof (cases "c \<in> fst ` set d")
    case True
    then have "fst ` set d2 = fst ` set d" using set2 by auto
    then show ?thesis using d'(2) keys1 keys2 True by (simp add: c_def[symmetric])
  next
    case False
    have "filter (\<lambda>z. z \<noteq> c) (filter (\<lambda>c. c \<notin> fst ` set d) (map categoryOf ts))
          = filter (\<lambda>ca. ca \<notin> fst ` set d2) (map categoryOf ts)"
      unfolding set2 by (auto intro: filter_cong)
    then show ?thesis using d'(2) keys1 keys2 False by (simp add: c_def[symmetric])
  qed
  have "categoryTasks d' c' = categoryTasks d c' @ inCategory c' (t # ts)" for c'
    using d'(3)[of c'] tasks2[of c'] by (auto simp: inCategory_def c_def)
  with step d'(1) keys show ?case by auto
qed

section \<open>Properties of the interleaving loops\<close>

lemma roundRobin_Nil: "roundRobin [] = []"
  by (simp add: roundRobin.simps)

lemma roundRobin_filter: "roundRobin (filter (\<lambda>xs. xs \<noteq> []) xss) = roundRobin xss"
  by (subst (1 2) roundRobin.simps) simp

lemma roundRobin_live:
  "xss \<noteq> [] \<Longrightarrow> \<forall>xs\<in>set xss. xs \<noteq> [] \<Longrightarrow>
     roundRobin xss = map hd xss @ roundRobin (map tl xss)"
proof -
  assume a: "xss \<noteq> []" "\<forall>xs\<in>set xss. xs \<noteq> []"
  then have "filter (\<lambda>xs. xs \<noteq> []) xss = xss" by (simp add: filter_id_conv)
  then show ?thesis using a(1) by (subst roundRobin.simps) (simp add: Let_def)
qed

lemma filter_nth_distinct:
  "distinct cs \<Longrightarrow> i < length cs \<Longrightarrow>
     filter (\<lambda>c. c \<noteq> cs ! i) cs = take i cs @ drop (Suc i) cs"
proof -
  assume d: "distinct cs" and i: "i < length cs"
  have cs: "cs = take i cs @ cs ! i # drop (Suc i) cs" using i by (rule id_take_nth_drop)
  have n1: "cs ! i \<notin> set (take i cs)" and n2: "cs ! i \<notin> set (drop (Suc i) cs)"
    using d cs by (metis distinct_append distinct.simps(2) disjoint_iff list.set_intros(1)
        not_distinct_conv_prefix)+
  have f1: "filter (\<lambda>c. c \<noteq> cs ! i) (take i cs) = take i cs"
    using n1 by (auto simp: filter_id_conv)
  have f2: "filter (\<lambda>c. c \<noteq> cs ! i) (drop (Suc i) cs) = drop (Suc i) cs"
    using n2 by (auto simp: filter_id_conv)
  have "filter (\<lambda>c. c \<noteq> cs ! i) (take i cs @ cs ! i # drop (Suc i) cs)
        = take i cs @ drop (Suc i) cs"
    by (simp only: filter_append filter.simps f1 f2) simp
  with cs show ?thesis by simp
qed

lemma forLoop_pass_from:
  "distinct cs \<Longrightarrow> i \<le> length cs \<Longrightarrow>
   \<forall>c\<in>set (drop i cs). c \<in> fst ` set d \<and> categoryTasks d c \<noteq> [] \<Longrightarrow>
     \<exists>d'. forLoop i cs d result =
            Inr (take i cs @ filter (\<lambda>c. tl (categoryTasks d c) \<noteq> []) (drop i cs), d',
                 result @ map (\<lambda>c. hd (categoryTasks d c)) (drop i cs))
        \<and> fst ` set d' = fst ` set d
        \<and> (\<forall>c. categoryTasks d' c =
                 (if c \<in> set (drop i cs) then tl (categoryTasks d c) else categoryTasks d c))"
proof (induction i cs d result rule: forLoop.induct)
  case (1 i cs d result)
  show ?case
  proof (cases "i < length cs")
    case False
    then have "drop i cs = []" "take i cs = cs" by simp_all
    then show ?thesis using False by (subst forLoop.simps) simp
  next
    case True
    define c where "c = cs ! i"
    have dr: "drop i cs = c # drop (Suc i) cs"
      using True by (simp add: c_def Cons_nth_drop_Suc)
    have cin: "c \<in> fst ` set d" and cne: "categoryTasks d c \<noteq> []"
      using "1.prems"(3) dr by auto
    then obtain ys where ys: "map_of d c = Some ys"
      by (metis map_of_None_iff not_Some_eq)
    then have ct: "categoryTasks d c = ys" by (simp add: categoryTasks_def)
    with cne have yne: "ys \<noteq> []" by simp
    have cnot: "c \<notin> set (drop (Suc i) cs)" "c \<notin> set (take i cs)"
      using "1.prems"(1) True dr
      by (metis append_take_drop_id distinct.simps(2) distinct_append,
          metis append_take_drop_id disjoint_iff distinct_append list.set_intros(1))
    define d1 where "d1 = AList.update c (tl ys) d"
    have keys1: "fst ` set d1 = fst ` set d"
      using cin by (auto simp: d1_def dom_update)
    have tasks1: "categoryTasks d1 c' = (if c' = c then tl ys else categoryTasks d c')" for c'
      by (simp add: d1_def categoryTasks_update)
    show ?thesis
    proof (cases "tl ys = []")
      case True
      define cs' where "cs' = filter (\<lambda>x. x \<noteq> c) cs"
      have cs': "cs' = take i cs @ drop (Suc i) cs"
        unfolding cs'_def c_def using "1.prems"(1) \<open>i < length cs\<close>
        by (rule filter_nth_distinct)
      have len: "length (take i cs) = i" using \<open>i < length cs\<close> by simp
      have take': "take i cs' = take i cs" and drop': "drop i cs' = drop (Suc i) cs"
        using len by (simp_all add: cs')
      have step: "forLoop i cs d result = forLoop i cs' d1 (result @ [hd ys])"
        using \<open>i < length cs\<close> ys yne True
        by (subst forLoop.simps) (simp add: Let_def c_def[symmetric] d1_def cs'_def)
      have p1: "distinct cs'" using "1.prems"(1) by (simp add: cs'_def)
      have p2: "i \<le> length cs'" using len cs' by (metis le_add1 length_append)
      have p3: "\<forall>x\<in>set (drop i cs'). x \<in> fst ` set d1 \<and> categoryTasks d1 x \<noteq> []"
        using "1.prems"(3) dr cnot(1) by (auto simp: drop' keys1 tasks1)
      have l0: "0 < length ys" "length (tl ys) = 0" using yne True by simp_all
      from "1.IH"(1)[OF \<open>i < length cs\<close> c_def ys l0(1) refl refl l0(2) p1[unfolded cs'_def]
            p2[unfolded cs'_def] p3[unfolded cs'_def d1_def]]
      obtain d' where d':
        "forLoop i cs' d1 (result @ [hd ys]) =
            Inr (take i cs' @ filter (\<lambda>c. tl (categoryTasks d1 c) \<noteq> []) (drop i cs'), d',
                 (result @ [hd ys]) @ map (\<lambda>c. hd (categoryTasks d1 c)) (drop i cs'))"
        "fst ` set d' = fst ` set d1"
        "\<And>x. categoryTasks d' x =
                 (if x \<in> set (drop i cs') then tl (categoryTasks d1 x) else categoryTasks d1 x)"
        unfolding cs'_def d1_def by auto
      have f: "filter (\<lambda>x. tl (categoryTasks d1 x) \<noteq> []) (drop (Suc i) cs)
               = filter (\<lambda>x. tl (categoryTasks d x) \<noteq> []) (drop (Suc i) cs)"
        using cnot(1) by (auto intro: filter_cong simp: tasks1)
      have m: "map (\<lambda>x. hd (categoryTasks d1 x)) (drop (Suc i) cs)
               = map (\<lambda>x. hd (categoryTasks d x)) (drop (Suc i) cs)"
        using cnot(1) by (auto simp: tasks1)
      have "forLoop i cs d result =
            Inr (take i cs @ filter (\<lambda>c. tl (categoryTasks d c) \<noteq> []) (drop i cs), d',
                 result @ map (\<lambda>c. hd (categoryTasks d c)) (drop i cs))"
        using step d'(1) True by (simp add: take' drop' f m dr ct)
      moreover have "categoryTasks d' x =
                 (if x \<in> set (drop i cs) then tl (categoryTasks d x) else categoryTasks d x)" for x
        using d'(3)[of x] cnot(1) by (auto simp: drop' dr tasks1 ct)
      ultimately show ?thesis using d'(2) keys1 by auto
    next
      case False
      have l0: "0 < length ys" "length (tl ys) \<noteq> 0"
        using yne False by (simp_all del: length_tl)
      have step: "forLoop i cs d result = forLoop (Suc i) cs d1 (result @ [hd ys])"
        using \<open>i < length cs\<close> ys l0
        by (subst forLoop.simps) (simp add: Let_def c_def[symmetric] d1_def del: length_tl)
      have p3: "\<forall>x\<in>set (drop (Suc i) cs). x \<in> fst ` set d1 \<and> categoryTasks d1 x \<noteq> []"
        using "1.prems"(3) dr cnot(1) by (auto simp: keys1 tasks1)
      have p2: "Suc i \<le> length cs" using \<open>i < length cs\<close> by simp
      from "1.IH"(2)[OF \<open>i < length cs\<close> c_def ys l0(1) refl refl l0(2) "1.prems"(1) p2
            p3[unfolded d1_def]]
      obtain d' where d':
        "forLoop (Suc i) cs d1 (result @ [hd ys]) =
            Inr (take (Suc i) cs @ filter (\<lambda>c. tl (categoryTasks d1 c) \<noteq> []) (drop (Suc i) cs),
                 d', (result @ [hd ys]) @ map (\<lambda>c. hd (categoryTasks d1 c)) (drop (Suc i) cs))"
        "fst ` set d' = fst ` set d1"
        "\<And>x. categoryTasks d' x =
           (if x \<in> set (drop (Suc i) cs) then tl (categoryTasks d1 x) else categoryTasks d1 x)"
        unfolding d1_def by auto
      have f: "filter (\<lambda>x. tl (categoryTasks d1 x) \<noteq> []) (drop (Suc i) cs)
               = filter (\<lambda>x. tl (categoryTasks d x) \<noteq> []) (drop (Suc i) cs)"
        using cnot(1) by (auto intro: filter_cong simp: tasks1)
      have m: "map (\<lambda>x. hd (categoryTasks d1 x)) (drop (Suc i) cs)
               = map (\<lambda>x. hd (categoryTasks d x)) (drop (Suc i) cs)"
        using cnot(1) by (auto simp: tasks1)
      have tk: "take (Suc i) cs = take i cs @ [c]"
        using \<open>i < length cs\<close> by (simp add: c_def take_Suc_conv_app_nth)
      have "forLoop i cs d result =
            Inr (take i cs @ filter (\<lambda>c. tl (categoryTasks d c) \<noteq> []) (drop i cs), d',
                 result @ map (\<lambda>c. hd (categoryTasks d c)) (drop i cs))"
        using step d'(1) False by (simp add: f m dr ct tk)
      moreover have "categoryTasks d' x =
                 (if x \<in> set (drop i cs) then tl (categoryTasks d x) else categoryTasks d x)" for x
        using d'(3)[of x] cnot(1) by (auto simp: dr tasks1 ct)
      ultimately show ?thesis using d'(2) keys1 by auto
    qed
  qed
qed

lemma sum_tails_less:
  "cs \<noteq> [] \<Longrightarrow> \<forall>c\<in>set cs. f c \<noteq> [] \<Longrightarrow>
     sum_list (map (\<lambda>c. length (tl (f c))) (filter P cs)) < sum_list (map (\<lambda>c. length (f c)) cs)"
proof -
  assume a: "cs \<noteq> []" "\<forall>c\<in>set cs. f c \<noteq> []"
  have "sum_list (map (\<lambda>c. length (tl (f c))) (filter P cs))
          \<le> sum_list (map (\<lambda>c. length (tl (f c))) cs)"
    by (induction cs) auto
  also have "\<dots> = sum_list (map (\<lambda>y. length (tl y)) (map f cs))"
    by (simp add: comp_def del: length_tl)
  also have "\<dots> < sum_list (map length (map f cs))"
    using a by (intro sum_length_tl) auto
  finally show ?thesis by (simp add: comp_def)
qed

lemma whileLoop_roundRobin:
  "distinct cs \<Longrightarrow> \<forall>c\<in>set cs. c \<in> fst ` set d \<and> categoryTasks d c \<noteq> [] \<Longrightarrow>
     whileLoop cs d result = Some (Inr (result @ roundRobin (map (categoryTasks d) cs)))"
proof (induction "sum_list (map (\<lambda>c. length (categoryTasks d c)) cs)"
        arbitrary: cs d result rule: less_induct)
  case less
  show ?case
  proof (cases "cs = []")
    case True
    then show ?thesis by (subst whileLoop.simps) (simp add: roundRobin_Nil)
  next
    case False
    define cs' where "cs' = filter (\<lambda>c. tl (categoryTasks d c) \<noteq> []) cs"
    define result' where "result' = result @ map (\<lambda>c. hd (categoryTasks d c)) cs"
    from forLoop_pass_from[of cs 0 d result] less.prems
    obtain d' where d': "forLoop 0 cs d result = Inr (cs', d', result')"
      "fst ` set d' = fst ` set d"
      "\<And>c. categoryTasks d' c = (if c \<in> set cs then tl (categoryTasks d c) else categoryTasks d c)"
      unfolding cs'_def result'_def by auto
    have step: "whileLoop cs d result = whileLoop cs' d' result'"
      using False d'(1) by (subst whileLoop.simps) simp
    have m: "map (\<lambda>c. length (categoryTasks d' c)) cs' = map (\<lambda>c. length (tl (categoryTasks d c))) cs'"
      using d'(3) by (auto simp: cs'_def simp del: length_tl)
    have less': "sum_list (map (\<lambda>c. length (categoryTasks d' c)) cs')
                 < sum_list (map (\<lambda>c. length (categoryTasks d c)) cs)"
      unfolding m unfolding cs'_def using False less.prems(2) by (intro sum_tails_less) auto
    have p1: "distinct cs'" using less.prems(1) by (simp add: cs'_def)
    have p2: "\<forall>c\<in>set cs'. c \<in> fst ` set d' \<and> categoryTasks d' c \<noteq> []"
      using less.prems(2) d'(2,3) by (auto simp: cs'_def)
    have ih: "whileLoop cs' d' result' = Some (Inr (result' @ roundRobin (map (categoryTasks d') cs')))"
      by (rule less.hyps[OF less' p1 p2])
    have m2: "map (categoryTasks d') cs' = filter (\<lambda>xs. xs \<noteq> []) (map tl (map (categoryTasks d) cs))"
      using d'(3) by (auto simp: cs'_def filter_map comp_def)
    have live: "roundRobin (map (categoryTasks d) cs)
                = map hd (map (categoryTasks d) cs) @ roundRobin (map tl (map (categoryTasks d) cs))"
      using False less.prems(2) by (intro roundRobin_live) auto
    have "whileLoop cs d result
          = Some (Inr (result' @ roundRobin (map tl (map (categoryTasks d) cs))))"
      by (simp only: step ih m2 roundRobin_filter)
    then show ?thesis
      by (simp only: live result'_def append_assoc map_map comp_def)
  qed
qed

lemma mset_heads_tails:
  "\<forall>y\<in>set ys. y \<noteq> [] \<Longrightarrow> mset (map hd ys) + mset (concat (map tl ys)) = mset (concat ys)"
proof (induction ys)
  case Nil
  then show ?case by simp
next
  case (Cons y ys)
  then obtain a as where "y = a # as" by (cases y) auto
  with Cons show ?case by (simp add: union_ac)
qed

lemma concat_filter_nonempty: "concat (filter (\<lambda>xs. xs \<noteq> []) xss) = concat xss"
  by (induction xss) auto

lemma mset_roundRobin: "mset (roundRobin xss) = mset (concat xss)"
proof (induction xss rule: roundRobin.induct)
  case (1 xss)
  define live where "live = filter (\<lambda>xs. xs \<noteq> []) xss"
  show ?case
  proof (cases "live = []")
    case True
    then have "concat xss = []" using concat_filter_nonempty[of xss] by (simp add: live_def)
    then show ?thesis using True by (subst roundRobin.simps) (simp add: live_def)
  next
    case False
    have ih: "mset (roundRobin (map tl live)) = mset (concat (map tl live))"
      using 1[OF live_def False] .
    have "roundRobin xss = map hd live @ roundRobin (map tl live)"
      using False by (subst roundRobin.simps) (simp add: live_def Let_def)
    then have "mset (roundRobin xss) = mset (map hd live) + mset (concat (map tl live))"
      using ih by simp
    also have "\<dots> = mset (concat live)"
      by (rule mset_heads_tails) (simp add: live_def)
    also have "\<dots> = mset (concat xss)" by (simp add: live_def concat_filter_nonempty)
    finally show ?thesis .
  qed
qed

lemma mset_categories:
  "distinct ks \<Longrightarrow>
     mset (concat (map (\<lambda>c. f (inCategory c xs)) ks)) = mset (filter (\<lambda>t. categoryOf t \<in> set ks) xs)"
  if f: "\<And>ys. mset (f ys) = mset ys"
proof (induction ks)
  case Nil
  then show ?case by simp
next
  case (Cons k ks)
  have "mset (inCategory k xs) + mset (filter (\<lambda>t. categoryOf t \<in> set ks) xs)
        = mset (filter (\<lambda>t. categoryOf t \<in> set (k # ks)) xs)"
    using Cons.prems by (induction xs) (auto simp: inCategory_def)
  with Cons show ?case by (simp add: f)
qed

section \<open>Properties of the ordering strategies\<close>

lemma objectKeys_keyOrder: "objectKeys d = keyOrder (map fst d)"
  by (simp add: objectKeys_def keyOrder_def Let_def)

lemma set_keyOrder: "set (keyOrder ks) = set ks"
  by (auto simp: keyOrder_def)

lemma distinct_keyOrder: "distinct ks \<Longrightarrow> distinct (keyOrder ks)"
  by (auto simp: keyOrder_def)

lemma objectKeys_lookup: "c \<in> set (objectKeys d) \<Longrightarrow> map_of d c \<noteq> None"
  by (simp add: objectKeys_keyOrder set_keyOrder map_of_None_iff)

lemma keys_sortEachCategory: "map fst (sortEachCategory tod d) = map fst d"
  by (induction d) (auto simp: sortEachCategory_def)

lemma sortDescending_Nil: "sortDescending tod [] = []"
  by (simp add: sortDescending_def)

lemma categoryTasks_sortEachCategory:
  "categoryTasks (sortEachCategory tod d) c = sortDescending tod (categoryTasks d c)"
  by (induction d) (auto simp: sortEachCategory_def categoryTasks_def sortDescending_Nil)

lemma mset_sortDescending: "mset (sortDescending tod ys) = mset ys"
  by (simp add: sortDescending_def)

lemma set_sortDescending: "set (sortDescending tod ys) = set ys"
  by (simp add: sortDescending_def)

lemma sortDescending_empty_iff: "sortDescending tod ys = [] \<longleftrightarrow> ys = []"
  by (metis mset_sortDescending mset_zero_iff)

lemma sortDescending_sorted:
  "sorted_wrt (\<lambda>s t. getScoreForTimeOfDay t tod \<le> getScoreForTimeOfDay s tod)
     (sortDescending tod ys)"
proof -
  have "sorted (map (\<lambda>t. - getScoreForTimeOfDay t tod) (sortDescending tod ys))"
    by (simp add: sortDescending_def)
  then show ?thesis by (simp add: sorted_map)
qed


lemma set_categoryOrder: "set (categoryOrder xs) = categoryOf ` set xs"
  by (simp add: categoryOrder_def set_keyOrder set_firstOccurrences)

lemma distinct_categoryOrder: "distinct (categoryOrder xs)"
  by (simp add: categoryOrder_def distinct_keyOrder distinct_firstOccurrences)

lemma inCategory_nonempty: "c \<in> categoryOf ` set xs \<Longrightarrow> inCategory c xs \<noteq> []"
  by (auto simp: inCategory_def filter_empty_conv)

lemma groupByCategory_empty:
  assumes "plainCategories xs"
  obtains d where "groupByCategory xs [] = Inr d"
    and "map fst d = firstOccurrences (map categoryOf xs)"
    and "\<And>c. categoryTasks d c = inCategory c xs"
proof -
  from groupByCategory_spec[OF assms, of "[]"] obtain d where
    "groupByCategory xs [] = Inr d"
    "map fst d = map fst [] @ firstOccurrences (filter (\<lambda>c. c \<notin> fst ` set []) (map categoryOf xs))"
    "\<forall>c. categoryTasks d c = categoryTasks [] c @ inCategory c xs"
    by auto
  then show ?thesis using that[of d] by (simp add: categoryTasks_def)
qed

lemma groupByCategory_nonempty:
  assumes "groupByCategory xs [] = Inr d" "plainCategories xs" "c \<in> set (objectKeys d)"
  shows "categoryTasks d c \<noteq> []"
proof -
  from groupByCategory_empty[OF assms(2)] assms(1) have
    k: "map fst d = firstOccurrences (map categoryOf xs)"
    and t: "\<And>c. categoryTasks d c = inCategory c xs" by auto
  have "c \<in> categoryOf ` set xs"
    using assms(3) by (simp add: objectKeys_keyOrder set_keyOrder k set_firstOccurrences)
  then show ?thesis by (simp add: t inCategory_nonempty)
qed

lemma groupByCategory_TypeError:
  "\<not> plainCategories xs \<Longrightarrow> groupByCategory xs d = Inl TypeError"
proof (induction xs arbitrary: d)
  case Nil
  then show ?case by (simp add: plainCategories_def)
next
  case (Cons t ts)
  show ?case
  proof (cases "categoryOf t \<in> set objectPrototypeKeys")
    case True
    then show ?thesis by simp
  next
    case False
    then have "\<not> plainCategories ts" using Cons.prems by (simp add: plainCategories_def)
    then show ?thesis using False Cons.IH by (simp add: Let_def split: option.splits)
  qed
qed

lemma balanceTaskCategories_roundRobin:
  assumes "plainCategories xs"
  shows "balanceTaskCategories xs tod =
     Some (Inr (roundRobin (map (\<lambda>c. sortDescending tod (inCategory c xs)) (categoryOrder xs))))"
proof -
  from groupByCategory_empty[OF assms] obtain d where d:
    "groupByCategory xs [] = Inr d"
    "map fst d = firstOccurrences (map categoryOf xs)"
    "\<And>c. categoryTasks d c = inCategory c xs" by blast
  define sorted where "sorted = sortEachCategory tod d"
  have keys: "objectKeys sorted = categoryOrder xs"
    by (simp add: objectKeys_keyOrder sorted_def keys_sortEachCategory d(2) categoryOrder_def)
  have tasks: "categoryTasks sorted c = sortDescending tod (inCategory c xs)" for c
    by (simp add: sorted_def categoryTasks_sortEachCategory d(3))
  have dom: "fst ` set sorted = categoryOf ` set xs"
    using keys_sortEachCategory[of tod d] d(2)
    by (metis list.set_map set_firstOccurrences sorted_def)
  have "whileLoop (categoryOrder xs) sorted []
        = Some (Inr ([] @ roundRobin (map (categoryTasks sorted) (categoryOrder xs))))"
    by (rule whileLoop_roundRobin)
       (auto simp: distinct_categoryOrder set_categoryOrder dom tasks sortDescending_empty_iff
          inCategory_nonempty)
  moreover have "map (categoryTasks sorted) (categoryOrder xs)
        = map (\<lambda>c. sortDescending tod (inCategory c xs)) (categoryOrder xs)"
    by (simp add: tasks)
  ultimately show ?thesis
    by (simp add: balanceTaskCategories_def d(1) sorted_def[symmetric] keys)
qed

lemma groupSimilarTasks_blocks:
  assumes "plainCategories xs"
  shows "groupSimilarTasks xs tod =
     Inr (concat (map (\<lambda>c. sortDescending tod (inCategory c xs)) (groupedCategoryOrder tod xs)))"
proof -
  from groupByCategory_empty[OF assms] obtain d where d:
    "groupByCategory xs [] = Inr d"
    "map fst d = firstOccurrences (map categoryOf xs)"
    "\<And>c. categoryTasks d c = inCategory c xs" by blast
  have keys: "objectKeys d = categoryOrder xs"
    by (simp add: objectKeys_keyOrder d(2) categoryOrder_def)
  have o: "(\<lambda>c. - maxScore tod (categoryTasks d c)) = (\<lambda>c. - maxScore tod (inCategory c xs))"
    by (simp add: d(3))
  have t: "categoryTasks (sortEachCategory tod d) = (\<lambda>c. sortDescending tod (inCategory c xs))"
    by (auto simp: categoryTasks_sortEachCategory d(3))
  show ?thesis
    by (simp add: groupSimilarTasks_def d(1) keys o t groupedCategoryOrder_def)
qed

lemma mset_all_categories:
  assumes f: "\<And>ys. mset (f ys) = mset ys"
    and "distinct ks" "set ks = categoryOf ` set xs"
  shows "mset (concat (map (\<lambda>c. f (inCategory c xs)) ks)) = mset xs"
proof -
  have "filter (\<lambda>t. categoryOf t \<in> set ks) xs = xs"
    using assms(3) by (auto simp: filter_id_conv)
  then show ?thesis using mset_categories[of f ks xs, OF f assms(2)] by simp
qed

lemma roundRobin_two_pairs: "roundRobin [[a1, a2], [b1, b2]] = [a1, b1, a2, b2]"
proof -
  have 1: "roundRobin [[a1, a2], [b1, b2]] = [a1, b1] @ roundRobin [[a2], [b2]]"
    by (subst roundRobin.simps) (simp add: Let_def)
  have 2: "roundRobin [[a2], [b2]] = [a2, b2] @ roundRobin [[], []]"
    by (subst roundRobin.simps) (simp add: Let_def)
  have 3: "roundRobin [[], []] = ([] :: 'a list)"
    by (subst roundRobin.simps) (simp add: Let_def)
  show ?thesis by (simp add: 1 2 3)
qed

lemma map_const_category:
  "\<forall>t\<in>set ys. categoryOf t = c \<Longrightarrow> map categoryOf ys = replicate (length ys) c"
  by (induction ys) auto

lemma categories_sorted_block:
  "map categoryOf (sortDescending tod (inCategory c xs)) = replicate (length (inCategory c xs)) c"
proof -
  have "\<forall>t\<in>set (sortDescending tod (inCategory c xs)). categoryOf t = c"
    by (simp add: set_sortDescending inCategory_def)
  from map_const_category[OF this] show ?thesis
    by (simp add: sortDescending_def)
qed

lemma two_elements: "length ys = 2 \<Longrightarrow> \<exists>y1 y2. ys = [y1, y2]"
  by (cases ys; cases "tl ys") auto

lemma categoryOf_example [simp]: "categoryOf (exampleScored i [c] u d) = c"
  by (simp add: categoryOf_def exampleScored_def exampleTask_def)

lemma score_example [simp]: "getScoreForTimeOfDay (exampleScored i tgs u d) tod = u * 9 + 35"
  by (cases tod) (simp_all add: getScoreForTimeOfDay_def exampleScored_def)

lemma not_index_A: "\<not> isArrayIndex ''A''" "\<not> isArrayIndex ''B''"
  by (simp_all add: isArrayIndex_def)

lemma plain_A: "''A'' \<notin> set objectPrototypeKeys" "''B'' \<notin> set objectPrototypeKeys"
  by (simp_all add: objectPrototypeKeys_def)

lemma balancedExample_facts:
  "plainCategories balancedExample"
  "categoryOrder balancedExample = [''A'', ''B'']"
  "inCategory ''A'' balancedExample
     = [exampleScored ''A1'' [''A''] 5 30, exampleScored ''A2'' [''A''] 4 30]"
  "inCategory ''B'' balancedExample
     = [exampleScored ''B1'' [''B''] 5 30, exampleScored ''B2'' [''B''] 4 30]"
  by (simp_all add: balancedExample_def plainCategories_def plain_A categoryOrder_def
      keyOrder_def not_index_A inCategory_def)

text \<open>
  The balanced strategy on a pool whose categories are plain names: it partitions the
  tasks by category (first tag, or "untagged"), sorts each category descending by the
  score for the time of day (stable), and round-robins over the categories in
  \<open>Object.keys\<close> order, one task per category per round, skipping exhausted categories;
  the output is a permutation of the input. With two categories of two tasks each the
  categories of the output alternate: A, B, A, B.
\<close>

lemma balanceTaskCategories_interleaves:
  assumes "plainCategories xs"
  shows "(let out = roundRobin (map (\<lambda>c. sortDescending tod (inCategory c xs)) (categoryOrder xs))
          in balanceTaskCategories xs tod = Some (Inr out)
           \<and> distinct (categoryOrder xs)
           \<and> set (categoryOrder xs) = categoryOf ` set xs
           \<and> (\<forall>c. mset (sortDescending tod (inCategory c xs)) = mset (inCategory c xs)
                  \<and> sorted_wrt (\<lambda>s t. getScoreForTimeOfDay t tod \<le> getScoreForTimeOfDay s tod)
                       (sortDescending tod (inCategory c xs)))
           \<and> mset out = mset xs
           \<and> (categoryOrder xs = [a, b] \<and> length (inCategory a xs) = 2
                \<and> length (inCategory b xs) = 2
              \<longrightarrow> map categoryOf out = [a, b, a, b]))"
proof -
  define out where
    "out = roundRobin (map (\<lambda>c. sortDescending tod (inCategory c xs)) (categoryOrder xs))"
  have 1: "balanceTaskCategories xs tod = Some (Inr out)"
    unfolding out_def by (rule balanceTaskCategories_roundRobin[OF assms])
  have 2: "mset out = mset xs"
    unfolding out_def mset_roundRobin
    by (rule mset_all_categories)
       (simp_all add: mset_sortDescending distinct_categoryOrder set_categoryOrder)
  have 3: "map categoryOf out = [a, b, a, b]"
    if h: "categoryOrder xs = [a, b]" "length (inCategory a xs) = 2" "length (inCategory b xs) = 2"
  proof -
    have la: "length (sortDescending tod (inCategory a xs)) = 2"
      and lb: "length (sortDescending tod (inCategory b xs)) = 2"
      using h(2,3) by (simp_all add: sortDescending_def)
    from two_elements[OF la] obtain a1 a2
      where a: "sortDescending tod (inCategory a xs) = [a1, a2]" by blast
    from two_elements[OF lb] obtain b1 b2
      where b: "sortDescending tod (inCategory b xs) = [b1, b2]" by blast
    have "map categoryOf [a1, a2] = [a, a]" "map categoryOf [b1, b2] = [b, b]"
      using categories_sorted_block[of tod a xs] categories_sorted_block[of tod b xs] h(2,3)
      by (simp_all add: a b numeral_2_eq_2)
    then show ?thesis
      by (simp add: out_def h(1) a b roundRobin_two_pairs)
  qed
  show ?thesis
    unfolding Let_def out_def[symmetric]
    using 1 2 3
    by (simp add: distinct_categoryOrder set_categoryOrder mset_sortDescending
        sortDescending_sorted)
qed

lemma balanceTaskCategories_interleaves_example:
  "plainCategories balancedExample
   \<and> balanceTaskCategories balancedExample MORNING =
       Some (Inr [exampleScored ''A1'' [''A''] 5 30, exampleScored ''B1'' [''B''] 5 30,
                  exampleScored ''A2'' [''A''] 4 30, exampleScored ''B2'' [''B''] 4 30])
   \<and> categoryOrder balancedExample = [''A'', ''B'']
   \<and> length (inCategory ''A'' balancedExample) = 2
   \<and> length (inCategory ''B'' balancedExample) = 2
   \<and> map categoryOf [exampleScored ''A1'' [''A''] 5 30, exampleScored ''B1'' [''B''] 5 30,
                       exampleScored ''A2'' [''A''] 4 30, exampleScored ''B2'' [''B''] 4 30]
       = [''A'', ''B'', ''A'', ''B'']"
  using balanceTaskCategories_interleaves [of balancedExample MORNING "''A''" "''B''"]
  by (simp add: balancedExample_facts sortDescending_def roundRobin_two_pairs Let_def)

lemma groupSimilarTasks_blocks_ordered:
  assumes "plainCategories xs"
  shows "(let cs = groupedCategoryOrder tod xs;
              out = concat (map (\<lambda>c. sortDescending tod (inCategory c xs)) cs)
          in groupSimilarTasks xs tod = Inr out
           \<and> mset out = mset xs
           \<and> distinct cs
           \<and> set cs = categoryOf ` set xs
           \<and> sorted_wrt (\<lambda>c c'. maxScore tod (inCategory c' xs) \<le> maxScore tod (inCategory c xs)) cs
           \<and> (\<forall>c. mset (sortDescending tod (inCategory c xs)) = mset (inCategory c xs)
                  \<and> sorted_wrt (\<lambda>s t. getScoreForTimeOfDay t tod \<le> getScoreForTimeOfDay s tod)
                       (sortDescending tod (inCategory c xs)))
           \<and> (categoryOf ` set xs = {a, b} \<and> length (inCategory a xs) = 2
                \<and> length (inCategory b xs) = 2
                \<and> maxScore tod (inCategory b xs) < maxScore tod (inCategory a xs)
              \<longrightarrow> map categoryOf out = [a, a, b, b]))"
proof -
  define cs where "cs = groupedCategoryOrder tod xs"
  define out where "out = concat (map (\<lambda>c. sortDescending tod (inCategory c xs)) cs)"
  have 1: "groupSimilarTasks xs tod = Inr out"
    unfolding out_def cs_def by (rule groupSimilarTasks_blocks[OF assms])
  have d: "distinct cs" and s: "set cs = categoryOf ` set xs"
    by (simp_all add: cs_def groupedCategoryOrder_def distinct_categoryOrder set_categoryOrder)
  have 2: "mset out = mset xs"
    unfolding out_def by (rule mset_all_categories) (simp_all add: mset_sortDescending d s)
  have "sorted (map (\<lambda>c. - maxScore tod (inCategory c xs)) cs)"
    by (simp add: cs_def groupedCategoryOrder_def)
  then have so: "sorted_wrt (\<lambda>c c'. maxScore tod (inCategory c' xs) \<le> maxScore tod (inCategory c xs)) cs"
    by (simp add: sorted_map)
  have 3: "map categoryOf out = [a, a, b, b]"
    if h: "categoryOf ` set xs = {a, b}" "length (inCategory a xs) = 2"
      "length (inCategory b xs) = 2"
      "maxScore tod (inCategory b xs) < maxScore tod (inCategory a xs)"
  proof -
    have ab: "a \<noteq> b" using h(4) by auto
    have "length cs = card (set cs)" using d by (simp add: distinct_card)
    also have "\<dots> = 2" using s h(1) ab by simp
    finally obtain c1 c2 where c: "cs = [c1, c2]" using two_elements by blast
    have "{c1, c2} = {a, b}" using s h(1) c by simp
    then have "cs = [a, b] \<or> cs = [b, a]" using c by (auto simp: doubleton_eq_iff)
    moreover have "cs \<noteq> [b, a]" using so h(4) by auto
    ultimately have cs: "cs = [a, b]" by blast
    show ?thesis
      using h(2,3)
      by (simp add: out_def cs categories_sorted_block numeral_2_eq_2)
  qed
  show ?thesis
    unfolding Let_def cs_def[symmetric] out_def[symmetric]
    using 1 2 3 d s so
    by (simp add: mset_sortDescending sortDescending_sorted)
qed


lemma maxScore_image: "maxScore tod ys = Max ((\<lambda>t. getScoreForTimeOfDay t tod) ` set ys)"
  by (simp add: maxScore_def)

lemma groupedExample_facts:
  "plainCategories groupedExample"
  "categoryOf ` set groupedExample = {''A'', ''B''}"
  "categoryOrder groupedExample = [''B'', ''A'']"
  "inCategory ''A'' groupedExample
     = [scoredAt ''A1'' [''A''] 30 90 10, scoredAt ''A2'' [''A''] 30 20 80]"
  "inCategory ''B'' groupedExample
     = [scoredAt ''B1'' [''B''] 30 50 30, scoredAt ''B2'' [''B''] 30 40 60]"
  by (auto simp: groupedExample_def plainCategories_def objectPrototypeKeys_def categoryOf_def
      scoredAt_def exampleTask_def inCategory_def categoryOrder_def keyOrder_def not_index_A)

text \<open>
  C8. For a pool whose categories are plain names, the output of the grouped strategy is
  a permutation of the input made of one contiguous block per category (the first tag,
  or "untagged"); the blocks are ordered descending by the highest score of their
  category for the time of day (\<open>morningScore\<close> or \<open>eveningScore\<close>), and the tasks of a
  block descending by that score. With categories A and B of two tasks each, where the
  best score of A exceeds the best score of B, the categories of the output are A, A, B,
  B. The pools that the generator passes to the grouped strategy have plain categories
  (\<open>grouped_pool_plain\<close>).
\<close>

theorem groupSimilarTasks_contiguous:
  assumes "plainCategories xs"
  shows "(let category = (\<lambda>t. if length (tags (task t)) > 0 then tags (task t) ! 0
                               else ''untagged'');
              score = (\<lambda>t. case tod of MORNING \<Rightarrow> morningScore t | EVENING \<Rightarrow> eveningScore t);
              inCat = (\<lambda>c. filter (\<lambda>t. category t = c) xs);
              best = (\<lambda>c. Max (score ` set (inCat c)));
              cs = groupedCategoryOrder tod xs;
              out = concat (map (\<lambda>c. sortDescending tod (inCat c)) cs)
          in groupSimilarTasks xs tod = Inr out
           \<and> mset out = mset xs
           \<and> distinct cs
           \<and> set cs = category ` set xs
           \<and> sorted_wrt (\<lambda>c c'. best c' \<le> best c) cs
           \<and> (\<forall>c. mset (sortDescending tod (inCat c)) = mset (inCat c)
                  \<and> sorted_wrt (\<lambda>s t. score t \<le> score s) (sortDescending tod (inCat c)))
           \<and> (category ` set xs = {a, b} \<and> length (inCat a) = 2 \<and> length (inCat b) = 2
                \<and> best b < best a
              \<longrightarrow> map category out = [a, a, b, b]))"
  using groupSimilarTasks_blocks_ordered[OF assms, of tod a b]
  unfolding Let_def categoryOf_def[symmetric] getScoreForTimeOfDay_def[symmetric]
    inCategory_def[symmetric] maxScore_image[symmetric]
  by simp

theorem groupSimilarTasks_contiguous_witness:
  "plainCategories groupedExample
   \<and> groupSimilarTasks groupedExample EVENING =
       Inr [scoredAt ''A2'' [''A''] 30 20 80, scoredAt ''A1'' [''A''] 30 90 10,
            scoredAt ''B2'' [''B''] 30 40 60, scoredAt ''B1'' [''B''] 30 50 30]
   \<and> Max (eveningScore ` {scoredAt ''B1'' [''B''] 30 50 30, scoredAt ''B2'' [''B''] 30 40 60})
       < Max (eveningScore ` {scoredAt ''A1'' [''A''] 30 90 10, scoredAt ''A2'' [''A''] 30 20 80})
   \<and> map (\<lambda>t. if length (tags (task t)) > 0 then tags (task t) ! 0 else ''untagged'')
         [scoredAt ''A2'' [''A''] 30 20 80, scoredAt ''A1'' [''A''] 30 90 10,
          scoredAt ''B2'' [''B''] 30 40 60, scoredAt ''B1'' [''B''] 30 50 30]
       = [''A'', ''A'', ''B'', ''B'']"
proof -
  have m: "maxScore EVENING [scoredAt ''A1'' [''A''] 30 90 10, scoredAt ''A2'' [''A''] 30 20 80]
             = 80"
    "maxScore EVENING [scoredAt ''B1'' [''B''] 30 50 30, scoredAt ''B2'' [''B''] 30 40 60]
             = 60"
    by (simp_all add: maxScore_def getScoreForTimeOfDay_def scoredAt_def)
  have g: "groupedCategoryOrder EVENING groupedExample = [''A'', ''B'']"
    by (simp add: groupedCategoryOrder_def groupedExample_facts m)
  have s: "sortDescending EVENING [scoredAt ''A1'' [''A''] 30 90 10, scoredAt ''A2'' [''A''] 30 20 80]
             = [scoredAt ''A2'' [''A''] 30 20 80, scoredAt ''A1'' [''A''] 30 90 10]"
    "sortDescending EVENING [scoredAt ''B1'' [''B''] 30 50 30, scoredAt ''B2'' [''B''] 30 40 60]
             = [scoredAt ''B2'' [''B''] 30 40 60, scoredAt ''B1'' [''B''] 30 50 30]"
    by (simp_all add: sortDescending_def getScoreForTimeOfDay_def scoredAt_def)
  note th = groupSimilarTasks_contiguous [OF groupedExample_facts(1), of EVENING "''A''" "''B''",
      unfolded Let_def categoryOf_def[symmetric] inCategory_def[symmetric]]
  have run: "groupSimilarTasks groupedExample EVENING =
       Inr [scoredAt ''A2'' [''A''] 30 20 80, scoredAt ''A1'' [''A''] 30 90 10,
            scoredAt ''B2'' [''B''] 30 40 60, scoredAt ''B1'' [''B''] 30 50 30]"
    using th by (simp add: groupedExample_facts g s)
  have cats: "map categoryOf
         [scoredAt ''A2'' [''A''] 30 20 80, scoredAt ''A1'' [''A''] 30 90 10,
          scoredAt ''B2'' [''B''] 30 40 60, scoredAt ''B1'' [''B''] 30 50 30]
       = [''A'', ''A'', ''B'', ''B'']"
    by (simp add: categoryOf_def scoredAt_def exampleTask_def)
  have mx: "Max (eveningScore ` {scoredAt ''B1'' [''B''] 30 50 30, scoredAt ''B2'' [''B''] 30 40 60})
       < Max (eveningScore ` {scoredAt ''A1'' [''A''] 30 90 10, scoredAt ''A2'' [''A''] 30 20 80})"
    by (simp add: scoredAt_def)
  show ?thesis
    using run cats mx groupedExample_facts(1) by (simp add: categoryOf_def)
qed


section \<open>Properties of the random pools\<close>

lemma random_index:
  assumes "randomOk rnd"
  shows "nat \<lfloor>rnd k * real (Suc n + 1)\<rfloor> \<le> Suc n"
proof -
  have r: "0 \<le> rnd k" "rnd k < 1" using assms by (auto simp: randomOk_def)
  have "rnd k * real (Suc n + 1) < 1 * real (Suc n + 1)"
    using r(2) by (intro mult_strict_right_mono) auto
  then have "rnd k * real (Suc n + 1) < of_int (int (Suc n + 1))" by simp
  then have "\<lfloor>rnd k * real (Suc n + 1)\<rfloor> < int (Suc n + 1)" by (simp only: floor_less_iff)
  then show ?thesis by linarith
qed

lemma shuffleLoop_mset:
  "randomOk rnd \<Longrightarrow> n < length xs \<or> n = 0 \<Longrightarrow> mset (fst (shuffleLoop rnd n k xs)) = mset xs"
proof (induction n arbitrary: k xs)
  case 0
  then show ?case by simp
next
  case (Suc n)
  define j where "j = nat \<lfloor>rnd k * real (Suc n + 1)\<rfloor>"
  have i: "Suc n < length xs" using Suc.prems(2) by simp
  have j: "j < length xs" using random_index[OF Suc.prems(1), of k n] i by (simp add: j_def)
  define ys where "ys = xs[Suc n := xs ! j, j := xs ! Suc n]"
  have m: "mset ys = mset xs" unfolding ys_def using j i by (rule mset_swap)
  have l: "n < length ys \<or> n = 0" using i by (simp add: ys_def)
  have "shuffleLoop rnd (Suc n) k xs = shuffleLoop rnd n (Suc k) ys"
    by (simp add: Let_def j_def ys_def)
  then show ?case using Suc.IH[OF Suc.prems(1) l, of "Suc k"] m by simp
qed

lemma shuffleArray_mset: "randomOk rnd \<Longrightarrow> mset (fst (shuffleArray rnd k xs)) = mset xs"
  unfolding shuffleArray_def by (rule shuffleLoop_mset) (cases xs, auto)

lemma addRandomnessToScores_tasks:
  "map task (fst (addRandomnessToScores rnd k v xs)) = map task xs"
proof (induction xs arbitrary: k)
  case Nil
  then show ?case by simp
next
  case (Cons x xs)
  obtain ts' k' where r: "addRandomnessToScores rnd (Suc (Suc k)) v xs = (ts', k')"
    by fastforce
  from Cons.IH[of "Suc (Suc k)"] r have "map task ts' = map task xs" by simp
  then show ?case by (simp add: r Let_def)
qed

lemma scoreTasks_tasks: "map task (scoreTasks now ts userPrefs) = ts"
  by (induction ts) (auto simp: scoreTasks_def)

section \<open>Properties of the option assembler\<close>

lemma removeAvailable_filter:
  "distinct (map (\<lambda>c. id' (task c)) xs) \<Longrightarrow>
     removeAvailable i xs = filter (\<lambda>x. id' (task x) \<noteq> i) xs"
proof (induction xs)
  case Nil
  then show ?case by simp
next
  case (Cons x xs)
  show ?case
  proof (cases "id' (task x) = i")
    case True
    then have "\<forall>y\<in>set xs. id' (task y) \<noteq> i"
      using Cons.prems by (fastforce simp: image_iff)
    then have "filter (\<lambda>x. id' (task x) \<noteq> i) xs = xs" by (simp add: filter_id_conv)
    then show ?thesis using True by simp
  next
    case False
    then show ?thesis using Cons by simp
  qed
qed

lemma fold_removeAvailable:
  "distinct (map (\<lambda>c. id' (task c)) xs) \<Longrightarrow>
     fold (\<lambda>c. removeAvailable (id' (task c))) ps xs
       = filter (\<lambda>x. id' (task x) \<notin> (\<lambda>c. id' (task c)) ` set ps) xs"
proof (induction ps arbitrary: xs)
  case Nil
  then show ?case by simp
next
  case (Cons p ps)
  have d: "distinct (map (\<lambda>c. id' (task c)) (filter (\<lambda>x. id' (task x) \<noteq> id' (task p)) xs))"
    using Cons.prems by (rule distinct_map_filter)
  show ?case
    using Cons.IH[OF d] Cons.prems
    by (auto simp: removeAvailable_filter intro: filter_cong)
qed

lemma allocateTasks_invariant:
  fixes tz :: TimeZone and tod :: TimeOfDay and t :: int and r :: int
  assumes perm: "mset blockTasks = mset (availableTasks st)"
    and da: "distinct (map (\<lambda>c. id' (task c)) (availableTasks st))"
    and ds: "distinct (map taskId (scheduledTasks st))"
    and dj: "taskId ` set (scheduledTasks st) \<inter> (\<lambda>c. id' (task c)) ` set (availableTasks st) = {}"
  defines "st' \<equiv> allocateTasks tz tod blockTasks t r st"
  shows "distinct (map (\<lambda>c. id' (task c)) (availableTasks st'))"
    and "distinct (map taskId (scheduledTasks st'))"
    and "taskId ` set (scheduledTasks st') \<inter> (\<lambda>c. id' (task c)) ` set (availableTasks st') = {}"
    and "(\<lambda>c. id' (task c)) ` set (availableTasks st') \<subseteq> (\<lambda>c. id' (task c)) ` set (availableTasks st)"
    and "taskId ` set (scheduledTasks st')
           \<subseteq> taskId ` set (scheduledTasks st) \<union> (\<lambda>c. id' (task c)) ` set (availableTasks st)"
proof -
  define P where "P = placedTasks blockTasks r"
  have sched: "scheduledTasks st' = scheduledTasks st @ slots tz t P"
    by (simp add: st'_def P_def allocateTasks_scheduled)
  have avail: "availableTasks st' = filter (\<lambda>x. id' (task x) \<notin> (\<lambda>c. id' (task c)) ` set P) (availableTasks st)"
    by (simp add: st'_def P_def allocateTasks_available fold_removeAvailable[OF da])
  have "mset (map (\<lambda>c. id' (task c)) blockTasks) = mset (map (\<lambda>c. id' (task c)) (availableTasks st))"
    using perm by simp
  then have db: "distinct (map (\<lambda>c. id' (task c)) blockTasks)"
    using da mset_eq_imp_distinct_iff by blast
  have dP: "distinct (map (\<lambda>c. id' (task c)) P)"
    unfolding P_def using db by (rule placedTasks_distinct)
  have sP: "set P \<subseteq> set (availableTasks st)"
    using placedTasks_subset[of blockTasks r] mset_eq_setD[OF perm] by (simp add: P_def)
  have ids: "map taskId (slots tz t P) = map (\<lambda>c. id' (task c)) P" by (rule map_taskId_slots)
  have setids: "taskId ` set (slots tz t P) = (\<lambda>c. id' (task c)) ` set P"
    using ids by (metis list.set_map)
  show "distinct (map (\<lambda>c. id' (task c)) (availableTasks st'))"
    unfolding avail using da by (rule distinct_map_filter)
  show "distinct (map taskId (scheduledTasks st'))"
    using ds dP dj sP by (auto simp: sched ids)
  show "taskId ` set (scheduledTasks st') \<inter> (\<lambda>c. id' (task c)) ` set (availableTasks st') = {}"
    using dj by (auto simp: sched avail setids image_Un)
  show "(\<lambda>c. id' (task c)) ` set (availableTasks st') \<subseteq> (\<lambda>c. id' (task c)) ` set (availableTasks st)"
    by (auto simp: avail)
  show "taskId ` set (scheduledTasks st')
           \<subseteq> taskId ` set (scheduledTasks st) \<union> (\<lambda>c. id' (task c)) ` set (availableTasks st)"
    using sP by (auto simp: sched setids image_Un)
qed

lemma orderTasks_mset:
  assumes "orderTasks strategy xs tod = Some (Inr ys)"
  shows "mset ys = mset xs"
proof (cases strategy)
  case Priority
  then show ?thesis
    using assms by (auto simp: orderTasks_def sortTasksByTimeOfDay_def mset_sortDescending)
next
  case Balanced
  show ?thesis
  proof (cases "plainCategories xs")
    case True
    have "ys = roundRobin (map (\<lambda>c. sortDescending tod (inCategory c xs)) (categoryOrder xs))"
      using assms Balanced balanceTaskCategories_roundRobin[OF True, of tod]
      by (simp add: orderTasks_def)
    then show ?thesis
      unfolding mset_roundRobin
      using mset_all_categories[of "sortDescending tod" "categoryOrder xs" xs]
      by (simp add: mset_sortDescending distinct_categoryOrder set_categoryOrder mset_roundRobin)
  next
    case False
    then have "balanceTaskCategories xs tod = Some (Inl TypeError)"
      by (simp add: balanceTaskCategories_def groupByCategory_TypeError)
    then show ?thesis using assms Balanced by (simp add: orderTasks_def)
  qed
next
  case Grouped
  show ?thesis
  proof (cases "plainCategories xs")
    case True
    have "ys = concat (map (\<lambda>c. sortDescending tod (inCategory c xs)) (groupedCategoryOrder tod xs))"
      using assms Grouped groupSimilarTasks_blocks[OF True, of tod]
      by (simp add: orderTasks_def)
    then show ?thesis
      using mset_all_categories[of "sortDescending tod" "groupedCategoryOrder tod xs" xs]
      by (simp add: mset_sortDescending groupedCategoryOrder_def distinct_categoryOrder
          set_categoryOrder)
  next
    case False
    then have "groupSimilarTasks xs tod = Inl TypeError"
      by (simp add: groupSimilarTasks_def groupByCategory_TypeError)
    then show ?thesis using assms Grouped by (simp add: orderTasks_def)
  qed
qed

lemma blocksLoop_invariant:
  "blocksLoop tz strategy blocks st = Some (Inr st') \<Longrightarrow>
   distinct (map (\<lambda>c. id' (task c)) (availableTasks st)) \<Longrightarrow>
   distinct (map taskId (scheduledTasks st)) \<Longrightarrow>
   taskId ` set (scheduledTasks st) \<inter> (\<lambda>c. id' (task c)) ` set (availableTasks st) = {} \<Longrightarrow>
     distinct (map taskId (scheduledTasks st'))
     \<and> taskId ` set (scheduledTasks st')
           \<subseteq> taskId ` set (scheduledTasks st) \<union> (\<lambda>c. id' (task c)) ` set (availableTasks st)"
proof (induction blocks arbitrary: st)
  case Nil
  then show ?case by auto
next
  case (Cons block blocks)
  from Cons.prems(1) obtain blockTasks where
    o: "orderTasks strategy (availableTasks st) (timeOfDay block) = Some (Inr blockTasks)"
    by (auto split: option.splits sum.splits)
  define st1 where "st1 = allocateTasks tz (timeOfDay block) blockTasks
               (TimeBlock.startTime block) (availableMinutes block) st"
  have rest: "blocksLoop tz strategy blocks st1 = Some (Inr st')"
    using Cons.prems(1) o by (simp add: st1_def)
  note inv = allocateTasks_invariant[OF orderTasks_mset[OF o] Cons.prems(2,3,4),
      of tz "timeOfDay block" "TimeBlock.startTime block" "availableMinutes block",
      folded st1_def]
  from Cons.IH[OF rest inv(1,2,3)] inv(4,5) show ?case by blast
qed

lemma generatePriorityBasedSchedule_distinct:
  assumes "generatePriorityBasedSchedule tz now rnd k pool blocks userPrefs dt strategy
             = Some (Inr opt)"
    and "distinct (map (\<lambda>c. id' (task c)) pool)"
  shows "distinct (map taskId (tasks opt))"
    and "taskId ` set (tasks opt) \<subseteq> (\<lambda>c. id' (task c)) ` set pool"
proof -
  from assms(1) obtain st' where
    b: "blocksLoop tz strategy blocks
          \<lparr>availableTasks = pool, scheduledTasks = [], runningScore = 0\<rparr> = Some (Inr st')"
    and t: "tasks opt = scheduledTasks st'"
    by (auto simp: generatePriorityBasedSchedule_def split: option.splits sum.splits)
  from blocksLoop_invariant[OF b] assms(2)
  show "distinct (map taskId (tasks opt))"
    and "taskId ` set (tasks opt) \<subseteq> (\<lambda>c. id' (task c)) ` set pool"
    by (auto simp: t)
qed

lemma generatePriorityBasedSchedule_single_block:
  assumes "generatePriorityBasedSchedule tz now rnd k pool [block] userPrefs dt strategy
             = Some (Inr opt)"
  obtains blockTasks where "mset blockTasks = mset pool"
    and "orderTasks strategy pool (timeOfDay block) = Some (Inr blockTasks)"
    and "tasks opt = slots tz (TimeBlock.startTime block)
                       (placedTasks blockTasks (availableMinutes block))"
proof -
  from assms obtain blockTasks where
    o: "orderTasks strategy pool (timeOfDay block) = Some (Inr blockTasks)"
    by (auto simp: generatePriorityBasedSchedule_def split: option.splits sum.splits)
  have "tasks opt = slots tz (TimeBlock.startTime block)
                       (placedTasks blockTasks (availableMinutes block))"
    using assms o by (auto simp: generatePriorityBasedSchedule_def allocateTasks_scheduled)
  with orderTasks_mset[OF o] o show ?thesis using that by blast
qed

lemma find_by_id:
  "distinct (map id' ts) \<Longrightarrow> x \<in> set ts \<Longrightarrow> find (\<lambda>t. id' t = id' x) ts = Some x"
  by (induction ts) auto

lemma placedMinutes_slots:
  "distinct (map id' ts) \<Longrightarrow> task ` set P \<subseteq> set ts \<Longrightarrow>
     placedMinutes ts (slots tz t P) = sum_list (map (\<lambda>c. durationMinutes (task c)) P)"
proof (induction P arbitrary: t)
  case Nil
  then show ?case by (simp add: placedMinutes_def)
next
  case (Cons c P)
  have "taskWithId ts (id' (task c)) = Some (task c)"
    unfolding taskWithId_def using Cons.prems by (intro find_by_id) auto
  moreover have "placedMinutes ts
          (slots tz (setMinutes tz t (getMinutes tz t + durationMinutes (task c))) P)
        = sum_list (map (\<lambda>c. durationMinutes (task c)) P)"
    using Cons by auto
  ultimately show ?case by (simp add: placedMinutes_def)
qed

lemma schedulesFromScored_options:
  assumes "schedulesFromScored tz now rnd scored userPrefs start free dt = Some (Inr opts)"
  obtains k p2 p3 o1 o2 o3 where "opts = [o1, o2, o3]"
    and "generatePriorityBasedSchedule tz now rnd k scored
           (dailyTimeBlocks tz userPrefs start free) userPrefs dt Priority = Some (Inr o1)"
    and "generatePriorityBasedSchedule tz now rnd (k + 1) p2
           (dailyTimeBlocks tz userPrefs start free) userPrefs dt Balanced = Some (Inr o2)"
    and "generatePriorityBasedSchedule tz now rnd (k + 2) p3
           (dailyTimeBlocks tz userPrefs start free) userPrefs dt Grouped = Some (Inr o3)"
    and "randomOk rnd \<Longrightarrow> mset (map task p2) = mset (map task scored)"
    and "randomOk rnd \<Longrightarrow> mset (map task p3) = mset (map task scored)"
proof -
  define blocks where "blocks = dailyTimeBlocks tz userPrefs start free"
  obtain sh1 k1 where s1: "shuffleArray rnd 0 scored = (sh1, k1)" by fastforce
  obtain p2 k2 where j1: "addRandomnessToScores rnd k1 5 sh1 = (p2, k2)" by fastforce
  obtain sh2 k3 where s2: "shuffleArray rnd k2 scored = (sh2, k3)" by fastforce
  obtain p3 k4 where j2: "addRandomnessToScores rnd k3 5 sh2 = (p3, k4)" by fastforce
  have g: "schedulesFromScored tz now rnd scored userPrefs start free dt =
      (case generatePriorityBasedSchedule tz now rnd k4 scored blocks userPrefs dt Priority of
           None \<Rightarrow> None
         | Some (Inl e) \<Rightarrow> Some (Inl e)
         | Some (Inr option1) \<Rightarrow>
            (case generatePriorityBasedSchedule tz now rnd (k4 + 1) p2 blocks
                    userPrefs dt Balanced of
               None \<Rightarrow> None
             | Some (Inl e) \<Rightarrow> Some (Inl e)
             | Some (Inr option2) \<Rightarrow>
                (case generatePriorityBasedSchedule tz now rnd (k4 + 2) p3 blocks
                        userPrefs dt Grouped of
                   None \<Rightarrow> None
                 | Some (Inl e) \<Rightarrow> Some (Inl e)
                 | Some (Inr option3) \<Rightarrow> Some (Inr ([] @ [option1] @ [option2] @ [option3])))))"
    by (simp add: schedulesFromScored_def Let_def blocks_def[symmetric] s1 j1 s2 j2)
  have m1: "mset (map task p2) = mset (map task scored)" if "randomOk rnd"
  proof -
    have "map task p2 = map task sh1"
      using addRandomnessToScores_tasks[of rnd k1 5 sh1] by (simp add: j1)
    moreover have "mset sh1 = mset scored"
      using shuffleArray_mset[OF that, of 0 scored] by (simp add: s1)
    ultimately show ?thesis by (metis mset_map)
  qed
  have m2: "mset (map task p3) = mset (map task scored)" if "randomOk rnd"
  proof -
    have "map task p3 = map task sh2"
      using addRandomnessToScores_tasks[of rnd k3 5 sh2] by (simp add: j2)
    moreover have "mset sh2 = mset scored"
      using shuffleArray_mset[OF that, of k2 scored] by (simp add: s2)
    ultimately show ?thesis by (metis mset_map)
  qed
  from assms[unfolded g] obtain o1 o2 o3 where
    "generatePriorityBasedSchedule tz now rnd k4 scored blocks userPrefs dt Priority
       = Some (Inr o1)"
    "generatePriorityBasedSchedule tz now rnd (k4 + 1) p2 blocks userPrefs dt Balanced
       = Some (Inr o2)"
    "generatePriorityBasedSchedule tz now rnd (k4 + 2) p3 blocks userPrefs dt Grouped
       = Some (Inr o3)"
    "opts = [o1, o2, o3]"
    by (auto split: option.splits sum.splits)
  then show ?thesis
    using that[of o1 o2 o3 k4 p2 p3] m1 m2
    by (simp add: blocks_def)
qed

lemma generateDailySchedules_options:
  assumes "generateDailySchedules tz now rnd ts userPrefs start free dt = Some (Inr opts)"
  obtains k p2 p3 o1 o2 o3 where "opts = [o1, o2, o3]"
    and "generatePriorityBasedSchedule tz now rnd k (scoreTasks now ts userPrefs)
           (dailyTimeBlocks tz userPrefs start free) userPrefs dt Priority = Some (Inr o1)"
    and "generatePriorityBasedSchedule tz now rnd (k + 1) p2
           (dailyTimeBlocks tz userPrefs start free) userPrefs dt Balanced = Some (Inr o2)"
    and "generatePriorityBasedSchedule tz now rnd (k + 2) p3
           (dailyTimeBlocks tz userPrefs start free) userPrefs dt Grouped = Some (Inr o3)"
    and "randomOk rnd \<Longrightarrow> mset (map task p2) = mset ts"
    and "randomOk rnd \<Longrightarrow> mset (map task p3) = mset ts"
proof -
  have "schedulesFromScored tz now rnd (scoreTasks now ts userPrefs) userPrefs start free dt
          = Some (Inr opts)"
    using assms by (simp add: generateDailySchedules_def)
  from schedulesFromScored_options[OF this] show ?thesis
    using that by (metis scoreTasks_tasks)
qed

lemma pool_ids:
  assumes "mset (map task p) = mset ts" "distinct (map id' ts)"
  shows "distinct (map (\<lambda>c. id' (task c)) p)"
    and "(\<lambda>c. id' (task c)) ` set p = id' ` set ts"
    and "task ` set p = set ts"
proof -
  have "mset (map id' (map task p)) = mset (map id' ts)"
    using assms(1) by (metis mset_map)
  then have "distinct (map id' (map task p))"
    using assms(2) mset_eq_imp_distinct_iff by blast
  then show "distinct (map (\<lambda>c. id' (task c)) p)" by (simp add: comp_def)
  have s: "set (map task p) = set ts" using assms(1) by (rule mset_eq_setD)
  then show "task ` set p = set ts" by simp
  then show "(\<lambda>c. id' (task c)) ` set p = id' ` set ts"
    by (metis image_image)
qed

lemma single_block_option:
  assumes g: "generatePriorityBasedSchedule tz now rnd k p
             (dailyTimeBlocks tz userPrefs start free) userPrefs dt strategy = Some (Inr opt)"
    and p: "mset (map task p) = mset ts" and d: "distinct (map id' ts)"
  shows "distinct (map taskId (tasks opt))"
    and "taskId ` set (tasks opt) \<subseteq> id' ` set ts"
    and "\<forall>block\<in>set (dailyTimeBlocks tz userPrefs start free).
           0 \<le> availableMinutes block \<longrightarrow> placedMinutes ts (tasks opt) \<le> availableMinutes block"
proof -
  note ids = pool_ids[OF p d]
  show "distinct (map taskId (tasks opt))"
    using generatePriorityBasedSchedule_distinct(1)[OF g ids(1)] .
  show "taskId ` set (tasks opt) \<subseteq> id' ` set ts"
    using generatePriorityBasedSchedule_distinct(2)[OF g ids(1)] ids(2) by simp
  obtain block where b: "dailyTimeBlocks tz userPrefs start free = [block]"
    by (simp add: dailyTimeBlocks_def prepareTimeBlocksFromStartTime_single)
  from generatePriorityBasedSchedule_single_block[OF g[unfolded b]] obtain blockTasks where
    bt: "mset blockTasks = mset p"
    "tasks opt = slots tz (TimeBlock.startTime block)
                   (placedTasks blockTasks (availableMinutes block))"
    by blast
  have "set (placedTasks blockTasks (availableMinutes block)) \<subseteq> set p"
    using placedTasks_subset[of blockTasks "availableMinutes block"] mset_eq_setD[OF bt(1)]
    by simp
  then have sub: "task ` set (placedTasks blockTasks (availableMinutes block)) \<subseteq> set ts"
    using ids(3) by blast
  have "placedMinutes ts (tasks opt) \<le> availableMinutes block"
    if "0 \<le> availableMinutes block"
    unfolding bt(2) placedMinutes_slots[OF d sub]
    using that by (rule placedTasks_minutes)
  then show "\<forall>block\<in>set (dailyTimeBlocks tz userPrefs start free).
           0 \<le> availableMinutes block \<longrightarrow> placedMinutes ts (tasks opt) \<le> availableMinutes block"
    by (simp add: b)
qed

lemma orderTasks_returns:
  "plainCategories xs \<Longrightarrow> \<exists>ys. orderTasks strategy xs tod = Some (Inr ys)"
  by (cases strategy)
     (simp_all add: orderTasks_def balanceTaskCategories_roundRobin groupSimilarTasks_blocks)

lemma plainCategories_pool:
  "mset (map task p) = mset ts \<Longrightarrow>
     plainCategories p \<longleftrightarrow> plainCategories (scoreTasks now ts userPrefs)"
proof -
  assume a: "mset (map task p) = mset ts"
  have c: "plainCategories q \<longleftrightarrow>
        (\<forall>t\<in>set (map task q). (if length (tags t) > 0 then tags t ! 0 else ''untagged'')
                                  \<notin> set objectPrototypeKeys)" for q
    by (simp add: plainCategories_def list_all_iff categoryOf_def)
  have "set (map task p) = set (map task (scoreTasks now ts userPrefs))"
    using mset_eq_setD[OF a] by (simp only: scoreTasks_tasks)
  then show ?thesis unfolding c by simp
qed

lemma generateScheduleOptions_returns:
  assumes "randomOk rnd" "plainCategories (scoreTasks now ts userPrefs)"
  shows "\<exists>o1 o2 o3. generateScheduleOptions tz now rnd ts userPrefs start freeTimeMinutes dt
                      = Some (Inr [o1, o2, o3])"
proof -
  define s where "s = (case start of None \<Rightarrow> now | Some s \<Rightarrow> s)"
  define d where "d = (case dt of None \<Rightarrow> now | Some d \<Rightarrow> d)"
  define scored where "scored = scoreTasks now ts userPrefs"
  obtain block where b: "dailyTimeBlocks tz userPrefs s freeTimeMinutes = [block]"
    by (simp add: dailyTimeBlocks_def prepareTimeBlocksFromStartTime_single)
  obtain sh1 k1 where s1: "shuffleArray rnd 0 scored = (sh1, k1)" by fastforce
  obtain p2 k2 where j1: "addRandomnessToScores rnd k1 5 sh1 = (p2, k2)" by fastforce
  obtain sh2 k3 where s2: "shuffleArray rnd k2 scored = (sh2, k3)" by fastforce
  obtain p3 k4 where j2: "addRandomnessToScores rnd k3 5 sh2 = (p3, k4)" by fastforce
  have m2: "mset (map task p2) = mset ts"
  proof -
    have "map task p2 = map task sh1"
      using addRandomnessToScores_tasks[of rnd k1 5 sh1] by (simp add: j1)
    moreover have "mset sh1 = mset scored"
      using shuffleArray_mset[OF assms(1), of 0 scored] by (simp add: s1)
    ultimately have "mset (map task p2) = mset (map task scored)" by (metis mset_map)
    then show ?thesis by (simp only: scored_def scoreTasks_tasks)
  qed
  have m3: "mset (map task p3) = mset ts"
  proof -
    have "map task p3 = map task sh2"
      using addRandomnessToScores_tasks[of rnd k3 5 sh2] by (simp add: j2)
    moreover have "mset sh2 = mset scored"
      using shuffleArray_mset[OF assms(1), of k2 scored] by (simp add: s2)
    ultimately have "mset (map task p3) = mset (map task scored)" by (metis mset_map)
    then show ?thesis by (simp only: scored_def scoreTasks_tasks)
  qed
  have pl: "plainCategories scored" "plainCategories p2" "plainCategories p3"
    using assms(2) plainCategories_pool[OF m2, of now userPrefs]
      plainCategories_pool[OF m3, of now userPrefs] by (simp_all add: scored_def)
  from orderTasks_returns[OF pl(1)] obtain b1 where
    "orderTasks Priority scored (timeOfDay block) = Some (Inr b1)" by blast
  note g1 = generatePriorityBasedSchedule_one_block[OF this, of tz now rnd k4 userPrefs d]
  from orderTasks_returns[OF pl(2)] obtain b2 where
    "orderTasks Balanced p2 (timeOfDay block) = Some (Inr b2)" by blast
  note g2 = generatePriorityBasedSchedule_one_block[OF this, of tz now rnd "Suc k4" userPrefs d]
  from orderTasks_returns[OF pl(3)] obtain b3 where
    "orderTasks Grouped p3 (timeOfDay block) = Some (Inr b3)" by blast
  note g3 = generatePriorityBasedSchedule_one_block[OF this, of tz now rnd "Suc (Suc k4)" userPrefs d]
  show ?thesis
    by (simp add: generateScheduleOptions_def generateDailySchedules_def schedulesFromScored_def Let_def
        s_def[symmetric] d_def[symmetric] scored_def[symmetric] s1 j1 s2 j2 b g1 g2 g3)
qed

lemma generateScheduleOptions_TypeError:
  assumes "randomOk rnd" "\<not> plainCategories (scoreTasks now ts userPrefs)"
  shows "generateScheduleOptions tz now rnd ts userPrefs start freeTimeMinutes dt
           = Some (Inl TypeError)"
proof -
  define s where "s = (case start of None \<Rightarrow> now | Some s \<Rightarrow> s)"
  define d where "d = (case dt of None \<Rightarrow> now | Some d \<Rightarrow> d)"
  define scored where "scored = scoreTasks now ts userPrefs"
  obtain block where b: "dailyTimeBlocks tz userPrefs s freeTimeMinutes = [block]"
    by (simp add: dailyTimeBlocks_def prepareTimeBlocksFromStartTime_single)
  obtain sh1 k1 where s1: "shuffleArray rnd 0 scored = (sh1, k1)" by fastforce
  obtain p2 k2 where j1: "addRandomnessToScores rnd k1 5 sh1 = (p2, k2)" by fastforce
  obtain sh2 k3 where s2: "shuffleArray rnd k2 scored = (sh2, k3)" by fastforce
  obtain p3 k4 where j2: "addRandomnessToScores rnd k3 5 sh2 = (p3, k4)" by fastforce
  have m2: "mset (map task p2) = mset ts"
  proof -
    have "map task p2 = map task sh1"
      using addRandomnessToScores_tasks[of rnd k1 5 sh1] by (simp add: j1)
    moreover have "mset sh1 = mset scored"
      using shuffleArray_mset[OF assms(1), of 0 scored] by (simp add: s1)
    ultimately have "mset (map task p2) = mset (map task scored)" by (metis mset_map)
    then show ?thesis by (simp only: scored_def scoreTasks_tasks)
  qed
  have "\<not> plainCategories p2"
    using assms(2) plainCategories_pool[OF m2, of now userPrefs] by simp
  then have "balanceTaskCategories p2 (timeOfDay block) = Some (Inl TypeError)"
    by (simp add: balanceTaskCategories_def groupByCategory_TypeError)
  then have g2: "generatePriorityBasedSchedule tz now rnd (Suc k4) p2 [block] userPrefs d Balanced
                   = Some (Inl TypeError)"
    by (simp add: generatePriorityBasedSchedule_def orderTasks_def)
  have "orderTasks Priority scored (timeOfDay block)
          = Some (Inr (sortTasksByTimeOfDay scored (timeOfDay block)))"
    by (simp add: orderTasks_def)
  note g1 = generatePriorityBasedSchedule_one_block[OF this, of tz now rnd k4 userPrefs d]
  show ?thesis
    by (simp add: generateScheduleOptions_def generateDailySchedules_def schedulesFromScored_def Let_def
        s_def[symmetric] d_def[symmetric] scored_def[symmetric] s1 j1 s2 j2 b g1 g2)
qed

text \<open>
  The generator builds the balanced option before the grouped one, from two pools that
  hold the same tasks. When the balanced strategy has returned on its pool, the pool of
  the grouped strategy has plain categories only.
\<close>

lemma grouped_pool_plain:
  assumes "balanceTaskCategories p2 tod = Some (Inr out)"
    and "mset (map task p2) = mset ts" "mset (map task p3) = mset ts"
  shows "plainCategories p3"
proof -
  have "plainCategories p2"
  proof (rule ccontr)
    assume "\<not> plainCategories p2"
    then have "balanceTaskCategories p2 tod = Some (Inl TypeError)"
      by (simp add: balanceTaskCategories_def groupByCategory_TypeError)
    then show False using assms(1) by simp
  qed
  then show ?thesis
    using plainCategories_pool[OF assms(2), of now userPrefs]
      plainCategories_pool[OF assms(3), of now userPrefs] by simp
qed

section \<open>The generator on example data\<close>

lemma inherited_name_pool:
  "\<not> plainCategories
       [exampleScored ''A1'' [''A''] 5 30, exampleScored ''C1'' [''constructor''] 4 30]"
  by (simp add: plainCategories_def categoryOf_def exampleScored_def exampleTask_def
      objectPrototypeKeys_def)

text \<open>
  C7. The balanced strategy is to return every task of its pool exactly once, interleaved
  by category, and does so for pools whose categories are plain names
  (\<open>balanceTaskCategories_interleaves\<close>). For a pool with a task whose first tag is
  "constructor", a name that the object literal \<open>{}\<close> inherits from \<open>Object.prototype\<close>,
  the grouping loop finds the inherited function, creates no array, and \<open>.push\<close> throws a
  TypeError: the strategy has no output, and neither has the generator called with such
  a task.
\<close>

theorem balanceTaskCategories_inherited_name:
  "balanceTaskCategories
     [exampleScored ''A1'' [''A''] 5 30, exampleScored ''C1'' [''constructor''] 4 30] MORNING
   = Some (Inl TypeError)
   \<and> generateScheduleOptions (fixedZone 0) 1672560000000 (\<lambda>_. 0)
       [exampleTask ''A1'' [''A''] 5 30, exampleTask ''C1'' [''constructor''] 4 30] examplePrefs
       (Some 1672560000000) (Some 60) (Some 1672560000000)
     = Some (Inl TypeError)"
proof -
  have 1: "balanceTaskCategories
     [exampleScored ''A1'' [''A''] 5 30, exampleScored ''C1'' [''constructor''] 4 30] MORNING
   = Some (Inl TypeError)"
    unfolding balanceTaskCategories_def groupByCategory_TypeError[OF inherited_name_pool]
    by simp
  have "\<not> plainCategories (scoreTasks 1672560000000
          [exampleTask ''A1'' [''A''] 5 30, exampleTask ''C1'' [''constructor''] 4 30] examplePrefs)"
    by (simp add: plainCategories_def categoryOf_def scoreTasks_def exampleTask_def
        objectPrototypeKeys_def)
  then have 2: "generateScheduleOptions (fixedZone 0) 1672560000000 (\<lambda>_. 0)
       [exampleTask ''A1'' [''A''] 5 30, exampleTask ''C1'' [''constructor''] 4 30] examplePrefs
       (Some 1672560000000) (Some 60) (Some 1672560000000)
     = Some (Inl TypeError)"
    by (intro generateScheduleOptions_TypeError) (simp_all add: randomOk_def)
  from 1 2 show ?thesis by (rule conjI)
qed

lemma schedulesFromScored_eval:
  assumes "shuffleArray rnd 0 scored = (sh1, k1)"
    and "addRandomnessToScores rnd k1 5 sh1 = (p2, k2)"
    and "shuffleArray rnd k2 scored = (sh2, k3)"
    and "addRandomnessToScores rnd k3 5 sh2 = (p3, k4)"
    and "dailyTimeBlocks tz userPrefs start free = [block]"
    and "generatePriorityBasedSchedule tz now rnd k4 scored [block]
           userPrefs dt Priority = Some (Inr o1)"
    and "generatePriorityBasedSchedule tz now rnd (Suc k4) p2 [block]
           userPrefs dt Balanced = Some (Inr o2)"
    and "generatePriorityBasedSchedule tz now rnd (Suc (Suc k4)) p3 [block]
           userPrefs dt Grouped = Some (Inr o3)"
  shows "schedulesFromScored tz now rnd scored userPrefs start free dt = Some (Inr [o1, o2, o3])"
  using assms by (simp add: schedulesFromScored_def Let_def)

lemma generateDailySchedules_eval:
  assumes "shuffleArray rnd 0 (scoreTasks now ts userPrefs) = (sh1, k1)"
    and "addRandomnessToScores rnd k1 5 sh1 = (p2, k2)"
    and "shuffleArray rnd k2 (scoreTasks now ts userPrefs) = (sh2, k3)"
    and "addRandomnessToScores rnd k3 5 sh2 = (p3, k4)"
    and "dailyTimeBlocks tz userPrefs start free = [block]"
    and "generatePriorityBasedSchedule tz now rnd k4 (scoreTasks now ts userPrefs) [block]
           userPrefs dt Priority = Some (Inr o1)"
    and "generatePriorityBasedSchedule tz now rnd (Suc k4) p2 [block]
           userPrefs dt Balanced = Some (Inr o2)"
    and "generatePriorityBasedSchedule tz now rnd (Suc (Suc k4)) p3 [block]
           userPrefs dt Grouped = Some (Inr o3)"
  shows "generateDailySchedules tz now rnd ts userPrefs start free dt = Some (Inr [o1, o2, o3])"
  unfolding generateDailySchedules_def Let_def
  by (rule schedulesFromScored_eval[OF assms])

lemma roundRobin_single: "roundRobin [[a1, a2]] = [a1, a2]"
proof -
  have 1: "roundRobin [[a1, a2]] = [a1] @ roundRobin [[a2]]"
    by (subst roundRobin.simps) (simp add: Let_def)
  have 2: "roundRobin [[a2]] = [a2] @ roundRobin [[]]"
    by (subst roundRobin.simps) (simp add: Let_def)
  have 3: "roundRobin [[]] = ([] :: 'a list)"
    by (subst roundRobin.simps) (simp add: Let_def)
  show ?thesis by (simp add: 1 2 3)
qed

lemma not_index_untagged: "\<not> isArrayIndex ''untagged''"
  by (simp add: isArrayIndex_def)

lemma plain_untagged: "''untagged'' \<notin> set objectPrototypeKeys"
  by (simp add: objectPrototypeKeys_def)

lemma untagged_pair:
  assumes "tags (task a) = []" "tags (task b) = []"
  shows "plainCategories [a, b]" "categoryOrder [a, b] = [''untagged'']"
    "inCategory ''untagged'' [a, b] = [a, b]"
  using assms
  by (simp_all add: plainCategories_def categoryOf_def plain_untagged categoryOrder_def
      keyOrder_def not_index_untagged inCategory_def)

lemma orderTasks_untagged_pair:
  assumes "tags (task a) = []" "tags (task b) = []"
    and "sortDescending tod [a, b] = [c, d]"
  shows "orderTasks strategy [a, b] tod = Some (Inr [c, d])"
proof (cases strategy)
  case Priority
  then show ?thesis by (simp add: orderTasks_def sortTasksByTimeOfDay_def assms(3))
next
  case Balanced
  then show ?thesis
    using balanceTaskCategories_roundRobin[OF untagged_pair(1)[OF assms(1,2)], of tod]
    by (simp add: orderTasks_def untagged_pair(2,3)[OF assms(1,2)] assms(3) roundRobin_single)
next
  case Grouped
  then show ?thesis
    using groupSimilarTasks_blocks[OF untagged_pair(1)[OF assms(1,2)], of tod]
    by (simp add: orderTasks_def groupedCategoryOrder_def untagged_pair(2,3)[OF assms(1,2)]
        assms(3))
qed

lemma example_scored:
  "scoreTasks 1672560000000 exampleTasks examplePrefs
     = [exampleScored ''A'' [] 5 30, exampleScored ''B'' [] 4 20]"
  by (simp add: scoreTasks_def exampleTasks_def exampleScored_def exampleTask_def
      examplePrefs_def calculateTaskScore_weighted_10 calculateDeadlineScore_def
      numberValue_def)

lemma example_block:
  "dailyTimeBlocks (fixedZone 0) examplePrefs 1672560000000 (Some 60) = [exampleBlock 60]"
  by (simp add: dailyTimeBlocks_def orDefault_def prepareTimeBlocksFromStartTime_single
      exampleBlock_def getHours_def localTime_def fixedZone_def)

lemma example_option:
  assumes "task a = exampleTask ''A'' [] 5 30" "task b = exampleTask ''B'' [] 4 20"
    and "orderTasks strategy pool MORNING = Some (Inr [a, b])"
    and "getScoreForTimeOfDay a MORNING + getScoreForTimeOfDay b MORNING = s"
  shows "generatePriorityBasedSchedule (fixedZone 0) 1672560000000 rnd k pool [exampleBlock 60]
           examplePrefs 1672560000000 strategy = Some (Inr (exampleOption (rnd k) s))"
proof -
  have o: "orderTasks strategy pool (timeOfDay (exampleBlock 60)) = Some (Inr [a, b])"
    using assms(3) by (simp add: exampleBlock_def)
  show ?thesis
    unfolding generatePriorityBasedSchedule_one_block[OF o]
    using assms(1,2,4)
    by (simp add: exampleBlock_def exampleOption_def exampleTask_def examplePrefs_def
        generateUniqueId_def slots_fixedZone del: slots.simps(2))
qed

lemma example_run_half:
  "generateScheduleOptions (fixedZone 0) 1672560000000 (\<lambda>_. 1 / 2) exampleTasks examplePrefs
     (Some 1672560000000) (Some 60) (Some 1672560000000)
   = Some (Inr [exampleOption (1 / 2) 151, exampleOption (1 / 2) 151, exampleOption (1 / 2) 151])"
proof -
  define a where "a = exampleScored ''A'' [] 5 30"
  define b where "b = exampleScored ''B'' [] 4 20"
  have t: "task a = exampleTask ''A'' [] 5 30" "task b = exampleTask ''B'' [] 4 20"
    "tags (task a) = []" "tags (task b) = []"
    by (simp_all add: a_def b_def exampleScored_def exampleTask_def)
  have sc: "getScoreForTimeOfDay a tod = 80" "getScoreForTimeOfDay b tod = 71" for tod
    by (cases tod; simp add: a_def b_def exampleScored_def getScoreForTimeOfDay_def)+
  have sh: "shuffleArray (\<lambda>_. 1 / 2) k [a, b] = ([a, b], Suc k)" for k
    by (simp add: shuffleArray_def Let_def)
  have ji: "addRandomnessToScores (\<lambda>_. 1 / 2) k 5 [a, b] = ([a, b], Suc (Suc (Suc (Suc k))))" for k
    by (simp add: Let_def a_def b_def exampleScored_def)
  have so: "sortDescending MORNING [a, b] = [a, b]"
    by (simp add: sortDescending_def sc)
  note o = orderTasks_untagged_pair[OF t(3,4) so]
  have g: "generatePriorityBasedSchedule (fixedZone 0) 1672560000000 (\<lambda>_. 1 / 2) k [a, b]
             [exampleBlock 60] examplePrefs 1672560000000 strategy
           = Some (Inr (exampleOption (1 / 2) 151))" for k strategy
    using example_option[OF t(1,2) o, where s = 151 and rnd = "\<lambda>_. 1 / 2"]
    by (simp add: sc)
  have p: "scoreTasks 1672560000000 exampleTasks examplePrefs = [a, b]"
    by (simp add: example_scored a_def b_def)
  have sh': "shuffleArray (\<lambda>_. 1 / 2) k (scoreTasks 1672560000000 exampleTasks examplePrefs)
               = ([a, b], Suc k)" for k
    by (simp only: p sh)
  have g': "generatePriorityBasedSchedule (fixedZone 0) 1672560000000 (\<lambda>_. 1 / 2) k
              (scoreTasks 1672560000000 exampleTasks examplePrefs)
              [exampleBlock 60] examplePrefs 1672560000000 Priority
            = Some (Inr (exampleOption (1 / 2) 151))" for k
    by (simp only: p g)
  show ?thesis
    unfolding generateScheduleOptions_def option.case
    by (rule generateDailySchedules_eval[OF sh' ji sh' ji example_block g' g g])
qed




lemma roundRobin_one: "roundRobin [[a1]] = [a1]"
proof -
  have 1: "roundRobin [[a1]] = [a1] @ roundRobin [[]]"
    by (subst roundRobin.simps) (simp add: Let_def)
  have 2: "roundRobin [[]] = ([] :: 'a list)"
    by (subst roundRobin.simps) (simp add: Let_def)
  show ?thesis by (simp add: 1 2)
qed

lemma orderTasks_untagged_single:
  assumes "tags (task a) = []"
  shows "orderTasks strategy [a] tod = Some (Inr [a])"
proof -
  have p: "plainCategories [a]" "categoryOrder [a] = [''untagged'']"
    "inCategory ''untagged'' [a] = [a]"
    using assms
    by (simp_all add: plainCategories_def categoryOf_def plain_untagged categoryOrder_def
        keyOrder_def not_index_untagged inCategory_def)
  have so: "sortDescending tod [a] = [a]" by (simp add: sortDescending_def)
  show ?thesis
  proof (cases strategy)
    case Priority
    then show ?thesis by (simp add: orderTasks_def sortTasksByTimeOfDay_def so)
  next
    case Balanced
    then show ?thesis
      using balanceTaskCategories_roundRobin[OF p(1), of tod]
      by (simp add: orderTasks_def p(2,3) so roundRobin_one)
  next
    case Grouped
    then show ?thesis
      using groupSimilarTasks_blocks[OF p(1), of tod]
      by (simp add: orderTasks_def groupedCategoryOrder_def p(2,3) so)
  qed
qed

text \<open>
  C6 (the code at a failing input). The property: an accepted candidate is emitted with
  \<open>startTime = currentTime\<close> and \<open>endTime = currentTime + durationMinutes\<close>. The packer skips,
  places and stops as the property says (\<open>allocateTasks_packing\<close>), and computes the end
  time with \<open>setMinutes(getMinutes() + durationMinutes)\<close> on local time, where the planner
  computes the end of the block from the time value. In US Eastern time, for a block of
  60 minutes that starts on 2023-11-05 at 01:50 EDT (05:50 UTC, 1699163400000), ten
  minutes before the clocks go back, a task of 30 minutes is given the local end time
  02:20, which is read back as 02:20 EST (07:20 UTC, 1699168800000): the scheduled task
  ends 90 minutes after its start and 30 minutes after the end of its block.
\<close>

theorem generateScheduleOptions_daylight_saving:
  "dailyTimeBlocks easternTime examplePrefs 1699163400000 (Some 60)
     = [\<lparr>timeOfDay = EVENING, startTime = 1699163400000, endTime = 1699167000000,
         availableMinutes = 60\<rparr>]
   \<and> map_option (map_sum id (map tasks))
       (generateScheduleOptions easternTime 1699163400000 (\<lambda>_. 1 / 2)
          [exampleTask ''A'' [] 5 30] examplePrefs
          (Some 1699163400000) (Some 60) (Some 1699163400000))
     = Some (Inr [[\<lparr>taskId = ''A'', startTime = 1699163400000, endTime = 1699168800000,
                      completed = False\<rparr>],
                  [\<lparr>taskId = ''A'', startTime = 1699163400000, endTime = 1699168800000,
                      completed = False\<rparr>],
                  [\<lparr>taskId = ''A'', startTime = 1699163400000, endTime = 1699168800000,
                      completed = False\<rparr>]])
   \<and> durationMinutes (exampleTask ''A'' [] 5 30) = 30
   \<and> (1699168800000 - 1699163400000) div 60000 = (90 :: int)"
proof -
  define a where "a = exampleScored ''A'' [] 5 30"
  define block where "block = \<lparr>timeOfDay = EVENING, startTime = 1699163400000,
                                 endTime = 1699167000000, availableMinutes = 60\<rparr>"
  have t: "tags (task a) = []" "task a = exampleTask ''A'' [] 5 30"
    by (simp_all add: a_def exampleScored_def exampleTask_def)
  have b: "dailyTimeBlocks easternTime examplePrefs 1699163400000 (Some 60) = [block]"
    by (simp add: dailyTimeBlocks_def orDefault_def prepareTimeBlocksFromStartTime_single
        getHours_def localTime_def easternTime_def block_def)
  have p: "scoreTasks 1699163400000 [exampleTask ''A'' [] 5 30] examplePrefs = [a]"
    by (simp add: scoreTasks_def a_def exampleScored_def exampleTask_def
        examplePrefs_def calculateTaskScore_weighted_10 calculateDeadlineScore_def
        numberValue_def)
  have sh: "shuffleArray (\<lambda>_. 1 / 2) k
              (scoreTasks 1699163400000 [exampleTask ''A'' [] 5 30] examplePrefs) = ([a], k)" for k
    by (simp add: p shuffleArray_def)
  have ji: "addRandomnessToScores (\<lambda>_. 1 / 2) k 5 [a] = ([a], Suc (Suc k))" for k
    by (simp add: Let_def a_def exampleScored_def)
  have e: "setMinutes easternTime 1699163400000 (getMinutes easternTime 1699163400000 + 30)
             = 1699168800000"
    by (simp add: setMinutes_local utcTime_def localTime_def easternTime_def)
  have o: "orderTasks strategy [a] (timeOfDay block) = Some (Inr [a])" for strategy
    by (rule orderTasks_untagged_single[OF t(1)])
  have g: "generatePriorityBasedSchedule easternTime 1699163400000 (\<lambda>_. 1 / 2) k [a]
             [block] examplePrefs 1699163400000 strategy
           = Some (Inr \<lparr>ident = generateUniqueId (\<lambda>_. 1 / 2) k 1699163400000,
                  optionUserId = ''u'', date = 1699163400000,
                  tasks = [\<lparr>taskId = ''A'', startTime = 1699163400000,
                             endTime = 1699168800000, completed = False\<rparr>],
                  totalScore = 80, selected = False, createdAt = 1699163400000\<rparr>)"
    for k strategy
    unfolding generatePriorityBasedSchedule_one_block[OF o]
    by (simp add: block_def t(2) exampleTask_def e examplePrefs_def a_def exampleScored_def
        getScoreForTimeOfDay_def)
  have g': "generatePriorityBasedSchedule easternTime 1699163400000 (\<lambda>_. 1 / 2) k
             (scoreTasks 1699163400000 [exampleTask ''A'' [] 5 30] examplePrefs)
             [block] examplePrefs 1699163400000 Priority
           = Some (Inr \<lparr>ident = generateUniqueId (\<lambda>_. 1 / 2) k 1699163400000,
                  optionUserId = ''u'', date = 1699163400000,
                  tasks = [\<lparr>taskId = ''A'', startTime = 1699163400000,
                             endTime = 1699168800000, completed = False\<rparr>],
                  totalScore = 80, selected = False, createdAt = 1699163400000\<rparr>)" for k
    by (simp only: p g)
  have "map_option (map_sum id (map tasks))
       (generateScheduleOptions easternTime 1699163400000 (\<lambda>_. 1 / 2)
          [exampleTask ''A'' [] 5 30] examplePrefs
          (Some 1699163400000) (Some 60) (Some 1699163400000))
     = Some (Inr [[\<lparr>taskId = ''A'', startTime = 1699163400000, endTime = 1699168800000,
                      completed = False\<rparr>],
                  [\<lparr>taskId = ''A'', startTime = 1699163400000, endTime = 1699168800000,
                      completed = False\<rparr>],
                  [\<lparr>taskId = ''A'', startTime = 1699163400000, endTime = 1699168800000,
                      completed = False\<rparr>]])"
    unfolding generateScheduleOptions_def option.case
      generateDailySchedules_eval[OF sh ji sh ji b g' g g]
    by simp
  then show ?thesis
    by (simp add: b block_def exampleTask_def)
qed

section \<open>Properties of the generated options\<close>

text \<open>
  C2. In every option that \<open>generateScheduleOptions\<close> returns for tasks with pairwise
  distinct ids (and a random source with values in \<open>[0, 1)\<close>), no task id appears in more
  than one scheduled task, every scheduled task names an input task, and the sum of
  \<open>durationMinutes\<close> over the tasks placed in the time block does not exceed the block's
  \<open>availableMinutes\<close> when these are not negative. (The generator packs every option into
  the one block of \<open>dailyTimeBlocks\<close>; lemmas \<open>allocateTasks_invariant\<close>, \<open>placedTasks_minutes\<close>
  and \<open>generatePriorityBasedSchedule_distinct\<close> give the same facts for each block of any
  list of blocks.)
\<close>

theorem generateScheduleOptions_invariants:
  assumes "generateScheduleOptions tz now rnd ts userPrefs start freeTimeMinutes dt
             = Some (Inr opts)"
    and "distinct (map id' ts)"
    and "randomOk rnd"
  shows "\<forall>opt\<in>set opts.
           distinct (map taskId (tasks opt))
           \<and> taskId ` set (tasks opt) \<subseteq> id' ` set ts
           \<and> (\<forall>block\<in>set (dailyTimeBlocks tz userPrefs
                               (case start of None \<Rightarrow> now | Some s \<Rightarrow> s) freeTimeMinutes).
                 0 \<le> availableMinutes block
                 \<longrightarrow> placedMinutes ts (tasks opt) \<le> availableMinutes block)"
proof -
  define s where "s = (case start of None \<Rightarrow> now | Some s \<Rightarrow> s)"
  define d where "d = (case dt of None \<Rightarrow> now | Some d \<Rightarrow> d)"
  have g: "generateDailySchedules tz now rnd ts userPrefs s freeTimeMinutes d = Some (Inr opts)"
    using assms(1) by (simp add: generateScheduleOptions_def s_def d_def)
  from generateDailySchedules_options[OF g] obtain k p2 p3 o1 o2 o3 where
    o: "opts = [o1, o2, o3]"
    and g1: "generatePriorityBasedSchedule tz now rnd k (scoreTasks now ts userPrefs)
           (dailyTimeBlocks tz userPrefs s freeTimeMinutes) userPrefs d Priority = Some (Inr o1)"
    and g2: "generatePriorityBasedSchedule tz now rnd (k + 1) p2
           (dailyTimeBlocks tz userPrefs s freeTimeMinutes) userPrefs d Balanced = Some (Inr o2)"
    and g3: "generatePriorityBasedSchedule tz now rnd (k + 2) p3
           (dailyTimeBlocks tz userPrefs s freeTimeMinutes) userPrefs d Grouped = Some (Inr o3)"
    and m2: "mset (map task p2) = mset ts"
    and m3: "mset (map task p3) = mset ts"
    using assms(3) by metis
  have m1: "mset (map task (scoreTasks now ts userPrefs)) = mset ts"
    by (simp only: scoreTasks_tasks)
  note r1 = single_block_option[OF g1 m1 assms(2)]
  note r2 = single_block_option[OF g2 m2 assms(2)]
  note r3 = single_block_option[OF g3 m3 assms(2)]
  show ?thesis
    unfolding s_def[symmetric] o using r1 r2 r3 by simp
qed

theorem generateScheduleOptions_invariants_witness:
  "generateScheduleOptions (fixedZone 0) 1672560000000 (\<lambda>_. 1 / 2) exampleTasks examplePrefs
     (Some 1672560000000) (Some 60) (Some 1672560000000)
     = Some (Inr [exampleOption (1 / 2) 151, exampleOption (1 / 2) 151,
                  exampleOption (1 / 2) 151])
   \<and> distinct (map id' exampleTasks)
   \<and> randomOk (\<lambda>_. 1 / 2)
   \<and> distinct (map taskId (tasks (exampleOption (1 / 2) 151)))
   \<and> taskId ` set (tasks (exampleOption (1 / 2) 151)) \<subseteq> id' ` set exampleTasks
   \<and> map availableMinutes (dailyTimeBlocks (fixedZone 0) examplePrefs 1672560000000 (Some 60)) = [60]
   \<and> placedMinutes exampleTasks (tasks (exampleOption (1 / 2) 151)) \<le> 60"
proof -
  have d: "distinct (map id' exampleTasks)"
    by (simp add: exampleTasks_def exampleTask_def)
  have r: "randomOk (\<lambda>_. 1 / 2)"
    by (simp add: randomOk_def)
  show ?thesis
    using generateScheduleOptions_invariants [OF example_run_half d r] d r
    by (simp add: example_run_half example_block exampleBlock_def)
qed



end
